theory Spec2Isabelle
  imports Complex_Main "HOL-Library.Sublist" "HOL-Library.Multiset"
begin

section \<open>Exceptions and query outcomes\<close>

text \<open>
  The exceptions that occur in \<^verbatim>\<open>main.py\<close>. The first three are the psutil exceptions named
  by the \<^verbatim>\<open>except\<close> clause of \<^verbatim>\<open>get_process_info\<close>; \<open>OSError\<close> stands for any other
  failure of an operating-system query; \<open>TypeError\<close> is raised by \<^verbatim>\<open>list.sort\<close> when it
  compares \<^verbatim>\<open>None\<close> with a number or with \<^verbatim>\<open>None\<close>; \<open>ValueError\<close> is raised by \<^verbatim>\<open>max\<close> on
  an empty sequence and \<open>AttributeError\<close> by \<^verbatim>\<open>item.keys()\<close> on a value that is not a dict.
\<close>

datatype exn =
  NoSuchProcess | AccessDenied | ZombieProcess | OSError | TypeError | ValueError | AttributeError

section \<open>The process collector\<close>

text \<open>
  One entry of the list built by \<^verbatim>\<open>get_process_info\<close>: the dict with the keys
  \<^verbatim>\<open>pid\<close>, \<^verbatim>\<open>name\<close>, \<^verbatim>\<open>username\<close>, \<^verbatim>\<open>memory_percent\<close>, \<^verbatim>\<open>cpu_percent\<close>, copied from
  \<^verbatim>\<open>proc.info\<close>. \<^verbatim>\<open>psutil.process_iter(attrs)\<close> fills \<^verbatim>\<open>proc.info\<close> before it yields the
  process, and it stores \<^verbatim>\<open>None\<close> for an attribute that the process denies or that a zombie
  no longer has. So the name, the user name and each of the two percentages is a value or
  \<^verbatim>\<open>None\<close>. A percentage that is present is a Python float; a finite float is a rational
  number and the order of floats is the order of their values, so it is modelled as \<open>rat\<close>.
\<close>

record process_entry =
  pid :: int
  name :: "string option"
  username :: "string option"
  memory_percent :: "rat option"
  cpu_percent :: "rat option"

text \<open>
  What the body of the \<^verbatim>\<open>try\<close> block does for one process yielded by
  \<^verbatim>\<open>psutil.process_iter\<close>: it reads the attributes, or it raises. With the \<^verbatim>\<open>proc.info\<close> of
  \<^verbatim>\<open>process_iter(attrs)\<close>, a plain dict, the body is not known to raise; the outcome \<open>Raises\<close>
  is there because the source provides for it.
\<close>

datatype proc_query = Info process_entry | Raises exn

text \<open>The \<^verbatim>\<open>except (psutil.NoSuchProcess, psutil.AccessDenied, psutil.ZombieProcess)\<close> clause.\<close>

fun caught :: "exn \<Rightarrow> bool" where
  "caught NoSuchProcess = True"
| "caught AccessDenied = True"
| "caught ZombieProcess = True"
| "caught _ = False"

text \<open>
  The \<^verbatim>\<open>for proc in psutil.process_iter(...)\<close> loop, with the list \<^verbatim>\<open>processes\<close> as
  accumulator: a successful query appends its entry, a caught exception passes, any other
  exception leaves the function.
\<close>

fun enumerate_processes :: "proc_query list \<Rightarrow> process_entry list \<Rightarrow> exn + process_entry list" where
  "enumerate_processes [] processes = Inr processes"
| "enumerate_processes (Info e # qs) processes = enumerate_processes qs (processes @ [e])"
| "enumerate_processes (Raises x # qs) processes =
     (if caught x then enumerate_processes qs processes else Inl x)"

text \<open>
  \<^verbatim>\<open>list.sort(key=k, reverse=True)\<close>. CPython first computes the key of every element. A list
  of fewer than two elements is left as it is, without any comparison. Otherwise every key
  takes part in at least one comparison, and \<^verbatim>\<open><\<close> between \<^verbatim>\<open>None\<close> and a float, or between
  \<^verbatim>\<open>None\<close> and \<^verbatim>\<open>None\<close>, raises TypeError: the sort raises as soon as one key is \<^verbatim>\<open>None\<close>.
  When every key is a float, the pairs of key and element are reversed, sorted stably in
  ascending order of the key and reversed again, so that equal keys keep their original order.
\<close>

definition sort_reverse :: "('a \<Rightarrow> rat option) \<Rightarrow> 'a list \<Rightarrow> exn + 'a list" where
  "sort_reverse k xs =
     (if length xs < 2 then Inr xs
      else case those (map k xs) of
             None \<Rightarrow> Inl TypeError
           | Some keys \<Rightarrow> Inr (map snd (rev (sort_key fst (rev (zip keys xs))))))"

text \<open>
  The slice \<^verbatim>\<open>xs[:limit]\<close> for an integer \<^verbatim>\<open>limit\<close>: a negative bound counts from the end
  of the list (and is clipped at the start of the list).
\<close>

definition slice_to :: "int \<Rightarrow> 'a list \<Rightarrow> 'a list" where
  "slice_to limit xs =
     (if 0 \<le> limit then take (nat limit) xs else take (nat (int (length xs) + limit)) xs)"

text \<open>The key selected by \<^verbatim>\<open>sort_by\<close>: memory when it is \<^verbatim>\<open>"memory"\<close>, otherwise CPU.\<close>

definition sort_metric :: "string \<Rightarrow> process_entry \<Rightarrow> rat option" where
  "sort_metric sort_by = (if sort_by = ''memory'' then memory_percent else cpu_percent)"

definition get_process_info :: "proc_query list \<Rightarrow> string \<Rightarrow> int \<Rightarrow> exn + process_entry list" where
  "get_process_info qs sort_by limit =
     (case enumerate_processes qs [] of
        Inl x \<Rightarrow> Inl x
      | Inr processes \<Rightarrow>
          (case sort_reverse (sort_metric sort_by) processes of
             Inl x \<Rightarrow> Inl x
           | Inr sorted_processes \<Rightarrow> Inr (slice_to limit sorted_processes)))"

text \<open>The entries of the queries that succeeded, and the queries whose exception is not caught.\<close>

fun infos :: "proc_query list \<Rightarrow> process_entry list" where
  "infos [] = []"
| "infos (Info e # qs) = e # infos qs"
| "infos (Raises x # qs) = infos qs"




section \<open>Python values, \<^verbatim>\<open>str\<close> and \<^verbatim>\<open>repr\<close>\<close>

text \<open>
  The values a snapshot is built from. A dict is an association list in insertion order (the
  iteration order of a Python dict); its keys are strings throughout \<^verbatim>\<open>main.py\<close>. Strings
  are \<open>string\<close>, so a character is one of the first 256 code points.
\<close>

datatype pyval =
    PNone
  | PBool bool
  | PInt int
  | PFloat rat
  | PStr string
  | PList "pyval list"
  | PDict "(string \<times> pyval) list"

text \<open>
  What the interpreter decides and a shallow embedding cannot compute: the rounding of the
  floating-point operations the collectors use, the text of a float (\<^verbatim>\<open>repr\<close>) and the float
  of a text (\<^verbatim>\<open>float\<close>), the order in which a \<^verbatim>\<open>set\<close> of strings is iterated (it depends
  on the string hashes of the run; the argument is the content of the set in insertion order),
  and \<^verbatim>\<open>str.capitalize\<close> on a string that has a character outside ASCII (the Unicode case
  mappings; the result can be longer than the string). They are parameters of the model.
\<close>

record runtime =
  float_repr :: "rat \<Rightarrow> string"
  float_parse :: "string \<Rightarrow> rat"
  true_div :: "int \<Rightarrow> int \<Rightarrow> rat"
  round_ndigits :: "rat \<Rightarrow> int \<Rightarrow> rat"
  set_iter :: "string list \<Rightarrow> string list"
  unicode_capitalize :: "string \<Rightarrow> string"

text \<open>\<^verbatim>\<open>dict[key] = value\<close>: an existing key keeps its position, a new key goes last.\<close>

fun dict_set :: "(string \<times> 'v) list \<Rightarrow> string \<Rightarrow> 'v \<Rightarrow> (string \<times> 'v) list" where
  "dict_set [] key v = [(key, v)]"
| "dict_set ((k, w) # kvs) key v =
     (if k = key then (k, v) # kvs else (k, w) # dict_set kvs key v)"

text \<open>\<^verbatim>\<open>sep.join(parts)\<close>.\<close>

fun join :: "string \<Rightarrow> string list \<Rightarrow> string" where
  "join sep [] = []"
| "join sep [p] = p"
| "join sep (p # q # ps) = p @ sep @ join sep (q # ps)"

text \<open>Decimal text of an integer, as \<^verbatim>\<open>str\<close> and \<^verbatim>\<open>repr\<close> give it.\<close>

fun str_nat :: "nat \<Rightarrow> string" where
  "str_nat n =
     (if n < 10 then [char_of (48 + n)] else str_nat (n div 10) @ [char_of (48 + n mod 10)])"

declare str_nat.simps [simp del]

definition str_int :: "int \<Rightarrow> string" where
  "str_int i = (if i < 0 then CHR ''-'' # str_nat (nat (- i)) else str_nat (nat i))"

definition hex_digit :: "nat \<Rightarrow> char" where
  "hex_digit n = (if n < 10 then char_of (48 + n) else char_of (87 + n))"

definition hex2 :: "nat \<Rightarrow> string" where
  "hex2 n = [hex_digit (n div 16 mod 16), hex_digit (n mod 16)]"

text \<open>
  \<^verbatim>\<open>repr\<close> of a string: double quotes when the string has a single quote and no double
  quote, single quotes otherwise; backslash, the quote, tab, newline and carriage return are
  escaped, every other character that is not printable is written \<^verbatim>\<open>\xNN\<close>.
\<close>

definition printable :: "char \<Rightarrow> bool" where
  "printable c =
     (let n = (of_char c :: nat)
      in (32 \<le> n \<and> n \<le> 126) \<or> (161 \<le> n \<and> n \<noteq> 173))"

definition repr_char :: "char \<Rightarrow> char \<Rightarrow> string" where
  "repr_char q c =
     (if c = q \<or> c = CHR 0x5C then [CHR 0x5C, c]
      else if c = CHR 0x09 then [CHR 0x5C, CHR ''t'']
      else if c = CHR 0x0A then [CHR 0x5C, CHR ''n'']
      else if c = CHR 0x0D then [CHR 0x5C, CHR ''r'']
      else if printable c then [c]
      else [CHR 0x5C, CHR ''x''] @ hex2 (of_char c))"

definition str_repr :: "string \<Rightarrow> string" where
  "str_repr s =
     (let q = (if CHR 0x27 \<in> set s \<and> CHR 0x22 \<notin> set s then CHR 0x22 else CHR 0x27)
      in q # concat (map (repr_char q) s) @ [q])"

fun py_repr :: "runtime \<Rightarrow> pyval \<Rightarrow> string" where
  "py_repr rt PNone = ''None''"
| "py_repr rt (PBool b) = (if b then ''True'' else ''False'')"
| "py_repr rt (PInt i) = str_int i"
| "py_repr rt (PFloat x) = float_repr rt x"
| "py_repr rt (PStr s) = str_repr s"
| "py_repr rt (PList xs) = ''['' @ join '', '' (map (py_repr rt) xs) @ '']''"
| "py_repr rt (PDict kvs) =
     ''{'' @ join '', '' (map (\<lambda>kv. str_repr (fst kv) @ '': '' @ py_repr rt (snd kv)) kvs) @ ''}''"

text \<open>\<^verbatim>\<open>str(v)\<close>, which is what an f-string field \<^verbatim>\<open>{v}\<close> and \<^verbatim>\<open>print(v)\<close> use.\<close>

definition py_str :: "runtime \<Rightarrow> pyval \<Rightarrow> string" where
  "py_str rt v = (case v of PStr s \<Rightarrow> s | _ \<Rightarrow> py_repr rt v)"

section \<open>The other collectors\<close>

text \<open>The rows of \<^verbatim>\<open>psutil.disk_partitions()\<close> and the tuple of \<^verbatim>\<open>psutil.disk_usage\<close>.\<close>

record partition =
  device :: string
  mountpoint :: string
  fstype :: string

record disk_usage =
  du_total :: int
  du_used :: int
  du_free :: int
  du_percent :: rat

text \<open>One dict appended by \<^verbatim>\<open>get_disk_info\<close>; every value of it is a string.\<close>

record disk_entry =
  de_device :: string
  de_mountpoint :: string
  de_file_system :: string
  de_total_size :: string
  de_used :: string
  de_free :: string
  de_percentage :: string

text \<open>\<^verbatim>\<open>f"{round(n / (1024**k), 2)} unit"\<close> and \<^verbatim>\<open>f"{x}%"\<close>.\<close>

definition size_text :: "runtime \<Rightarrow> int \<Rightarrow> nat \<Rightarrow> string \<Rightarrow> string" where
  "size_text rt n k unit =
     float_repr rt (round_ndigits rt (true_div rt n (1024 ^ k)) 2) @ '' '' @ unit"

definition percent_text :: "runtime \<Rightarrow> rat \<Rightarrow> string" where
  "percent_text rt x = float_repr rt x @ ''%''"

definition make_disk_entry :: "runtime \<Rightarrow> partition \<Rightarrow> disk_usage \<Rightarrow> disk_entry" where
  "make_disk_entry rt p u =
     \<lparr> de_device = device p,
       de_mountpoint = mountpoint p,
       de_file_system = fstype p,
       de_total_size = size_text rt (du_total u) 3 ''GB'',
       de_used = size_text rt (du_used u) 3 ''GB'',
       de_free = size_text rt (du_free u) 3 ''GB'',
       de_percentage = percent_text rt (du_percent u) \<rparr>"

text \<open>
  The loop of \<^verbatim>\<open>get_disk_info\<close> over the partitions, each paired with what
  \<^verbatim>\<open>psutil.disk_usage(partition.mountpoint)\<close> does for it (\<open>Inl\<close>: it raises), with the list
  \<^verbatim>\<open>disk_info\<close> as accumulator. The bare \<^verbatim>\<open>except: pass\<close> catches every exception.
\<close>

fun disk_loop ::
  "runtime \<Rightarrow> (partition \<times> (exn + disk_usage)) list \<Rightarrow> disk_entry list \<Rightarrow> disk_entry list" where
  "disk_loop rt [] disk_info = disk_info"
| "disk_loop rt ((p, Inr u) # ps) disk_info = disk_loop rt ps (disk_info @ [make_disk_entry rt p u])"
| "disk_loop rt ((p, Inl x) # ps) disk_info = disk_loop rt ps disk_info"

definition get_disk_info :: "runtime \<Rightarrow> (partition \<times> (exn + disk_usage)) list \<Rightarrow> disk_entry list" where
  "get_disk_info rt partitions = disk_loop rt partitions []"

text \<open>The partition an entry was built from, and the partitions whose usage query succeeds.\<close>

definition entry_partition :: "disk_entry \<Rightarrow> partition" where
  "entry_partition e =
     \<lparr> device = de_device e, mountpoint = de_mountpoint e, fstype = de_file_system e \<rparr>"

fun usage_ok :: "partition \<times> (exn + disk_usage) \<Rightarrow> bool" where
  "usage_ok (p, Inr u) = True"
| "usage_ok (p, Inl x) = False"

text \<open>The dicts the two list collectors put into the snapshot.\<close>

definition opt_str :: "string option \<Rightarrow> pyval" where
  "opt_str s = (case s of None \<Rightarrow> PNone | Some t \<Rightarrow> PStr t)"

definition opt_int :: "int option \<Rightarrow> pyval" where
  "opt_int i = (case i of None \<Rightarrow> PNone | Some n \<Rightarrow> PInt n)"

definition disk_dict :: "disk_entry \<Rightarrow> pyval" where
  "disk_dict e = PDict
     [(''device'', PStr (de_device e)),
      (''mountpoint'', PStr (de_mountpoint e)),
      (''file_system'', PStr (de_file_system e)),
      (''total_size'', PStr (de_total_size e)),
      (''used'', PStr (de_used e)),
      (''free'', PStr (de_free e)),
      (''percentage'', PStr (de_percentage e))]"

definition opt_float :: "rat option \<Rightarrow> pyval" where
  "opt_float x = (case x of None \<Rightarrow> PNone | Some y \<Rightarrow> PFloat y)"

definition process_dict :: "process_entry \<Rightarrow> pyval" where
  "process_dict e = PDict
     [(''pid'', PInt (pid e)),
      (''name'', opt_str (name e)),
      (''username'', opt_str (username e)),
      (''memory_percent'', opt_float (memory_percent e)),
      (''cpu_percent'', opt_float (cpu_percent e))]"

text \<open>
  What the operating system answers in one run: the values read by the collectors through
  \<^verbatim>\<open>platform\<close>, \<^verbatim>\<open>psutil\<close>, \<^verbatim>\<open>socket\<close> and \<^verbatim>\<open>datetime\<close>. The functions of \<^verbatim>\<open>platform\<close>
  return a string whatever the host (the empty string when they cannot tell) and
  \<^verbatim>\<open>datetime.now\<close> returns the time. The queries of \<^verbatim>\<open>psutil\<close> and \<^verbatim>\<open>socket\<close> can raise, and
  outside the two \<^verbatim>\<open>try\<close> blocks nothing catches what they raise: \<^verbatim>\<open>socket.gethostbyname\<close>
  fails when the host name does not resolve, \<^verbatim>\<open>psutil.cpu_freq\<close> where the platform does not
  give the frequency. For each collector the host therefore gives either the answers to its
  unguarded queries or the exception with which the first failing one ends the collector.
\<close>

record cpu_freq =
  freq_current :: rat
  freq_max :: rat

record cpu_queries =
  cpu_count_physical :: "int option"
  cpu_count_logical :: "int option"
  psutil_cpu_freq :: "cpu_freq option"
  cpu_percent_percpu :: "rat list"
  cpu_percent_total :: rat

record memory_queries =
  vm_total :: int
  vm_available :: int
  vm_used :: int
  vm_percent :: rat
  swap_total :: int
  swap_used :: int
  swap_percent :: rat

record net_stats =
  bytes_sent :: int
  bytes_recv :: int
  packets_sent :: int
  packets_recv :: int

record network_queries =
  gethostname :: string
  gethostbyname :: string
  net_io_counters :: "(string \<times> net_stats) list"

record env =
  platform_system :: string
  platform_node :: string
  platform_release :: string
  platform_version :: string
  platform_machine :: string
  platform_processor :: string
  platform_python_version :: string
  psutil_cpu :: "exn + cpu_queries"
  psutil_memory :: "exn + memory_queries"
  disk_partitions :: "exn + (partition \<times> (exn + disk_usage)) list"
  socket_network :: "exn + network_queries"
  process_iter :: "exn + proc_query list"
  now :: string

definition get_system_info :: "env \<Rightarrow> pyval" where
  "get_system_info e = PDict
     [(''system'', PStr (platform_system e)),
      (''node'', PStr (platform_node e)),
      (''release'', PStr (platform_release e)),
      (''version'', PStr (platform_version e)),
      (''machine'', PStr (platform_machine e)),
      (''processor'', PStr (platform_processor e)),
      (''python_version'', PStr (platform_python_version e))]"

text \<open>The dict built by \<^verbatim>\<open>get_cpu_info\<close> from the answers to its queries.\<close>

definition get_cpu_info :: "runtime \<Rightarrow> cpu_queries \<Rightarrow> pyval" where
  "get_cpu_info rt c = PDict
     [(''physical_cores'', opt_int (cpu_count_physical c)),
      (''total_cores'', opt_int (cpu_count_logical c)),
      (''max_frequency'',
         (case psutil_cpu_freq c of Some f \<Rightarrow> PFloat (freq_max f) | None \<Rightarrow> PStr ''N/A'')),
      (''current_frequency'',
         (case psutil_cpu_freq c of Some f \<Rightarrow> PFloat (freq_current f) | None \<Rightarrow> PStr ''N/A'')),
      (''cpu_usage_per_core'', PList (map (\<lambda>x. PStr (percent_text rt x)) (cpu_percent_percpu c))),
      (''total_cpu_usage'', PStr (percent_text rt (cpu_percent_total c)))]"

text \<open>The local function \<^verbatim>\<open>bytes_to_gb\<close> of \<^verbatim>\<open>get_memory_info\<close>.\<close>

definition bytes_to_gb :: "runtime \<Rightarrow> int \<Rightarrow> rat" where
  "bytes_to_gb rt bytes_val = round_ndigits rt (true_div rt bytes_val (1024 ^ 3)) 2"

definition get_memory_info :: "runtime \<Rightarrow> memory_queries \<Rightarrow> pyval" where
  "get_memory_info rt m = PDict
     [(''total'', PStr (float_repr rt (bytes_to_gb rt (vm_total m)) @ '' GB'')),
      (''available'', PStr (float_repr rt (bytes_to_gb rt (vm_available m)) @ '' GB'')),
      (''used'', PStr (float_repr rt (bytes_to_gb rt (vm_used m)) @ '' GB'')),
      (''percentage'', PStr (percent_text rt (vm_percent m))),
      (''swap_total'', PStr (float_repr rt (bytes_to_gb rt (swap_total m)) @ '' GB'')),
      (''swap_used'', PStr (float_repr rt (bytes_to_gb rt (swap_used m)) @ '' GB'')),
      (''swap_percentage'', PStr (percent_text rt (swap_percent m)))]"

definition interface_dict :: "runtime \<Rightarrow> net_stats \<Rightarrow> pyval" where
  "interface_dict rt s = PDict
     [(''bytes_sent'', PStr (size_text rt (bytes_sent s) 2 ''MB'')),
      (''bytes_received'', PStr (size_text rt (bytes_recv s) 2 ''MB'')),
      (''packets_sent'', PInt (packets_sent s)),
      (''packets_received'', PInt (packets_recv s))]"

fun interfaces_loop ::
  "runtime \<Rightarrow> (string \<times> net_stats) list \<Rightarrow> (string \<times> pyval) list \<Rightarrow> (string \<times> pyval) list" where
  "interfaces_loop rt [] interfaces = interfaces"
| "interfaces_loop rt ((interface, stats) # rest) interfaces =
     interfaces_loop rt rest (dict_set interfaces interface (interface_dict rt stats))"

definition get_network_info :: "runtime \<Rightarrow> network_queries \<Rightarrow> pyval" where
  "get_network_info rt n = PDict
     [(''hostname'', PStr (gethostname n)),
      (''ip_address'', PStr (gethostbyname n)),
      (''interfaces'', PDict (interfaces_loop rt (net_io_counters n) []))]"

section \<open>The text formatter\<close>

text \<open>\<^verbatim>\<open>f"{key:{width}}"\<close> for a string: padded with spaces on the right.\<close>

definition ljust :: "nat \<Rightarrow> string \<Rightarrow> string" where
  "ljust width s = s @ replicate (width - length s) CHR '' ''"

text \<open>
  \<^verbatim>\<open>str.capitalize\<close>: on a string of ASCII characters the first character in upper case and
  the rest in lower case; on any other string what the Unicode case mappings of the runtime
  give.
\<close>

definition to_upper :: "char \<Rightarrow> char" where
  "to_upper c = (let n = (of_char c :: nat) in if 97 \<le> n \<and> n \<le> 122 then char_of (n - 32) else c)"

definition to_lower :: "char \<Rightarrow> char" where
  "to_lower c = (let n = (of_char c :: nat) in if 65 \<le> n \<and> n \<le> 90 then char_of (n + 32) else c)"

definition is_ascii :: "char \<Rightarrow> bool" where
  "is_ascii c = ((of_char c :: nat) < 128)"

definition capitalize :: "runtime \<Rightarrow> string \<Rightarrow> string" where
  "capitalize rt s =
     (if list_all is_ascii s
      then (case s of [] \<Rightarrow> [] | c # cs \<Rightarrow> to_upper c # map to_lower cs)
      else unicode_capitalize rt s)"

text \<open>\<^verbatim>\<open>if title: print(f"\n=== {title} ===\n")\<close>; one element of the output per call of \<^verbatim>\<open>print\<close>.\<close>

definition title_lines :: "string option \<Rightarrow> string list" where
  "title_lines title =
     (case title of
        None \<Rightarrow> []
      | Some t \<Rightarrow> if t = [] then [] else [CHR 0x0A # ''=== '' @ t @ '' ==='' @ [CHR 0x0A]])"

text \<open>\<^verbatim>\<open>max(len(key) for key in data.keys())\<close> on a dict that has a key.\<close>

definition max_key_length :: "(string \<times> pyval) list \<Rightarrow> nat" where
  "max_key_length kvs = fold (\<lambda>kv m. max (length (fst kv)) m) kvs 0"

text \<open>The body of the loop over \<^verbatim>\<open>data.items()\<close>: the lines printed for one key.\<close>

definition display_item :: "runtime \<Rightarrow> nat \<Rightarrow> string \<times> pyval \<Rightarrow> string list" where
  "display_item rt width kv =
     (case snd kv of
        PDict sub \<Rightarrow> (fst kv @ '':'') # map (\<lambda>s. ''  '' @ fst s @ '': '' @ py_str rt (snd s)) sub
      | PList items \<Rightarrow> (fst kv @ '':'') # map (\<lambda>item. ''  - '' @ py_str rt item) items
      | _ \<Rightarrow> [ljust width (fst kv) @ '': '' @ py_str rt (snd kv)])"

text \<open>
  \<^verbatim>\<open>keys.update(item.keys())\<close> on a set kept in insertion order, and the first loop over a
  list of records. \<^verbatim>\<open>item.keys()\<close> raises AttributeError at an item that is not a dict, before
  the list branch has printed anything; when the loop ends, every item is a dict, and
  \<open>all_dicts\<close> gives their contents.
\<close>

definition set_update :: "string list \<Rightarrow> string list \<Rightarrow> string list" where
  "set_update keys new = fold (\<lambda>k acc. if k \<in> set acc then acc else acc @ [k]) new keys"

fun all_dicts :: "pyval list \<Rightarrow> (string \<times> pyval) list list option" where
  "all_dicts [] = Some []"
| "all_dicts (PDict kvs # items) = map_option ((#) kvs) (all_dicts items)"
| "all_dicts (_ # items) = None"

definition key_union :: "(string \<times> pyval) list list \<Rightarrow> string list" where
  "key_union dicts = fold (\<lambda>kvs keys. set_update keys (map fst kvs)) dicts []"

text \<open>The header line, built while iterating the set \<^verbatim>\<open>keys\<close> (\<^verbatim>\<open>"name"\<close> already removed).\<close>

definition header_line :: "runtime \<Rightarrow> string list \<Rightarrow> string" where
  "header_line rt cols = ''Name'' @ concat (map (\<lambda>key. '' | '' @ capitalize rt key) cols)"

text \<open>The body of the second loop: the line printed for one record.\<close>

definition display_row :: "runtime \<Rightarrow> string list \<Rightarrow> (string \<times> pyval) list \<Rightarrow> string" where
  "display_row rt cols item =
     (case map_of item ''name'' of
        Some n \<Rightarrow>
          py_str rt n @
          concat (map (\<lambda>key. if key \<noteq> ''name''
                               then '' | '' @ (case map_of item key of Some v \<Rightarrow> py_str rt v | None \<Rightarrow> ''N/A'')
                               else []) cols)
      | None \<Rightarrow> py_str rt (PDict item))"

definition display_list :: "runtime \<Rightarrow> pyval list \<Rightarrow> string list \<times> exn option" where
  "display_list rt data =
     (case data of
        PDict first # rest \<Rightarrow>
          (case all_dicts data of
             None \<Rightarrow> ([], Some AttributeError)
           | Some dicts \<Rightarrow>
               (let keys = key_union dicts;
                    has_name = (''name'' \<in> set keys);
                    keys = (if has_name then remove1 ''name'' keys else keys);
                    cols = set_iter rt keys;
                    header = header_line rt cols
                in ((if has_name then [header, replicate (length header) CHR ''-''] else [])
                    @ map (display_row rt cols) dicts, None)))
      | _ \<Rightarrow> (map (\<lambda>item. ''- '' @ py_str rt item) data, None))"

text \<open>
  \<^verbatim>\<open>display_info(data, title)\<close>: the strings printed, in order, and the exception that ended
  the call, if any. \<^verbatim>\<open>max\<close> of an empty sequence raises ValueError.
\<close>

definition display_info :: "runtime \<Rightarrow> pyval \<Rightarrow> string option \<Rightarrow> string list \<times> exn option" where
  "display_info rt data title =
     (case data of
        PDict kvs \<Rightarrow>
          if kvs = [] then (title_lines title, Some ValueError)
          else (title_lines title @ concat (map (display_item rt (max_key_length kvs)) kvs), None)
      | PList items \<Rightarrow> (case display_list rt items of (out, x) \<Rightarrow> (title_lines title @ out, x))
      | _ \<Rightarrow> (title_lines title, None))"

section \<open>The JSON formatter\<close>

text \<open>
  \<^verbatim>\<open>json.dumps(v, indent=n)\<close> with the defaults of the library: \<^verbatim>\<open>ensure_ascii\<close>, the item
  separator \<^verbatim>\<open>","\<close> and the key separator \<^verbatim>\<open>": "\<close> that go with an indent; every item of a
  non-empty list or dict on a line of its own, indented by \<^verbatim>\<open>n\<close> spaces per nesting level.
\<close>

definition json_char :: "char \<Rightarrow> string" where
  "json_char c =
     (if c = CHR 0x22 then [CHR 0x5C, CHR 0x22]
      else if c = CHR 0x5C then [CHR 0x5C, CHR 0x5C]
      else if c = CHR 0x0A then [CHR 0x5C, CHR ''n'']
      else if c = CHR 0x0D then [CHR 0x5C, CHR ''r'']
      else if c = CHR 0x09 then [CHR 0x5C, CHR ''t'']
      else if c = CHR 0x08 then [CHR 0x5C, CHR ''b'']
      else if c = CHR 0x0C then [CHR 0x5C, CHR ''f'']
      else if 32 \<le> (of_char c :: nat) \<and> (of_char c :: nat) \<le> 126 then [c]
      else [CHR 0x5C, CHR ''u'', CHR ''0'', CHR ''0''] @ hex2 (of_char c))"

definition json_string :: "string \<Rightarrow> string" where
  "json_string s = CHR 0x22 # concat (map json_char s) @ [CHR 0x22]"

definition newline_indent :: "nat \<Rightarrow> nat \<Rightarrow> string" where
  "newline_indent indent level = CHR 0x0A # replicate (indent * level) CHR '' ''"

fun json_encode :: "runtime \<Rightarrow> nat \<Rightarrow> nat \<Rightarrow> pyval \<Rightarrow> string" where
  "json_encode rt indent level PNone = ''null''"
| "json_encode rt indent level (PBool b) = (if b then ''true'' else ''false'')"
| "json_encode rt indent level (PInt i) = str_int i"
| "json_encode rt indent level (PFloat x) = float_repr rt x"
| "json_encode rt indent level (PStr s) = json_string s"
| "json_encode rt indent level (PList xs) =
     (if xs = [] then ''[]''
      else ''['' @ newline_indent indent (Suc level)
           @ join ('','' @ newline_indent indent (Suc level))
                  (map (json_encode rt indent (Suc level)) xs)
           @ newline_indent indent level @ '']'')"
| "json_encode rt indent level (PDict kvs) =
     (if kvs = [] then ''{}''
      else ''{'' @ newline_indent indent (Suc level)
           @ join ('','' @ newline_indent indent (Suc level))
                  (map (\<lambda>kv. json_string (fst kv) @ '': '' @ json_encode rt indent (Suc level) (snd kv)) kvs)
           @ newline_indent indent level @ ''}'')"

definition json_dumps :: "runtime \<Rightarrow> nat \<Rightarrow> pyval \<Rightarrow> string" where
  "json_dumps rt indent v = json_encode rt indent 0 v"

section \<open>The command line and \<^verbatim>\<open>main\<close>\<close>

text \<open>The namespace returned by \<^verbatim>\<open>parser.parse_args()\<close>.\<close>

record args =
  opt_all :: bool
  opt_system :: bool
  opt_cpu :: bool
  opt_memory :: bool
  opt_disk :: bool
  opt_network :: bool
  opt_processes :: bool
  opt_sort_by :: string
  opt_limit :: int
  opt_output :: "string option"
  opt_json :: bool

text \<open>
  The options as they are given on the command line, and what argparse makes of them: the
  namespace starts from the declared defaults, a \<^verbatim>\<open>store_true\<close> flag sets its attribute, an
  option with a value stores it (the last occurrence wins), and a \<^verbatim>\<open>--sort-by\<close> value outside
  \<^verbatim>\<open>choices\<close> ends the run with a usage error (\<open>None\<close>).
\<close>

datatype cli_option =
    All | System | Cpu | Memory | Disk | Network | Processes
  | SortBy string | Limit int | Output string | Json

definition default_args :: args where
  "default_args =
     \<lparr> opt_all = False, opt_system = False, opt_cpu = False, opt_memory = False,
       opt_disk = False, opt_network = False, opt_processes = False,
       opt_sort_by = ''memory'', opt_limit = 10, opt_output = None, opt_json = False \<rparr>"

fun store :: "cli_option \<Rightarrow> args \<Rightarrow> args" where
  "store All a = a\<lparr>opt_all := True\<rparr>"
| "store System a = a\<lparr>opt_system := True\<rparr>"
| "store Cpu a = a\<lparr>opt_cpu := True\<rparr>"
| "store Memory a = a\<lparr>opt_memory := True\<rparr>"
| "store Disk a = a\<lparr>opt_disk := True\<rparr>"
| "store Network a = a\<lparr>opt_network := True\<rparr>"
| "store Processes a = a\<lparr>opt_processes := True\<rparr>"
| "store (SortBy s) a = a\<lparr>opt_sort_by := s\<rparr>"
| "store (Limit n) a = a\<lparr>opt_limit := n\<rparr>"
| "store (Output f) a = a\<lparr>opt_output := Some f\<rparr>"
| "store Json a = a\<lparr>opt_json := True\<rparr>"

fun valid_option :: "cli_option \<Rightarrow> bool" where
  "valid_option (SortBy s) = (s = ''cpu'' \<or> s = ''memory'')"
| "valid_option _ = True"

definition parse_args :: "cli_option list \<Rightarrow> args option" where
  "parse_args argv = (if list_all valid_option argv then Some (fold store argv default_args) else None)"

text \<open>Lines 195 and 196: with no section flag set, \<^verbatim>\<open>args.system = True\<close>.\<close>

definition any_section :: "args \<Rightarrow> bool" where
  "any_section a =
     (opt_all a \<or> opt_system a \<or> opt_cpu a \<or> opt_memory a \<or> opt_disk a \<or> opt_network a \<or> opt_processes a)"

definition default_section :: "args \<Rightarrow> args" where
  "default_section a = (if \<not> any_section a then a\<lparr>opt_system := True\<rparr> else a)"

text \<open>
  Lines 199 to 217 are six statements \<^verbatim>\<open>if args.all or args.x: results[key] = get_x_info()\<close>.
  Here is what one of them does. When the flag is not set, nothing; when the call raises, the
  run ends with that exception and \<^verbatim>\<open>results\<close> as it stands; otherwise the value is stored
  and the next statement runs. A statement is given by its guard, its key and the outcome of
  its call.
\<close>

fun run_collectors ::
  "(bool \<times> string \<times> (exn + pyval)) list \<Rightarrow> (string \<times> pyval) list
     \<Rightarrow> (string \<times> pyval) list \<times> exn option" where
  "run_collectors [] results = (results, None)"
| "run_collectors ((wanted, key, outcome) # rest) results =
     (if wanted
      then (case outcome of
              Inl x \<Rightarrow> (results, Some x)
            | Inr v \<Rightarrow> run_collectors rest (dict_set results key v))
      else run_collectors rest results)"

text \<open>A collector that builds its value from the answers to its queries, when they answer.\<close>

definition answered :: "exn + 'a \<Rightarrow> ('a \<Rightarrow> pyval) \<Rightarrow> exn + pyval" where
  "answered outcome build = (case outcome of Inl x \<Rightarrow> Inl x | Inr d \<Rightarrow> Inr (build d))"

text \<open>
  The call \<^verbatim>\<open>get_process_info(args.sort_by, args.limit)\<close>: the enumeration, then the loop, the
  sort and the slice.
\<close>

definition processes_outcome :: "env \<Rightarrow> string \<Rightarrow> int \<Rightarrow> exn + pyval" where
  "processes_outcome e sort_by limit =
     (case process_iter e of
        Inl x \<Rightarrow> Inl x
      | Inr qs \<Rightarrow> answered (get_process_info qs sort_by limit) (\<lambda>ps. PList (map process_dict ps)))"

text \<open>The five statements before the process collector, and the six of them.\<close>

definition first_collectors :: "runtime \<Rightarrow> env \<Rightarrow> args \<Rightarrow> (bool \<times> string \<times> (exn + pyval)) list" where
  "first_collectors rt e a =
     [(opt_all a \<or> opt_system a, ''system'', Inr (get_system_info e)),
      (opt_all a \<or> opt_cpu a, ''cpu'', answered (psutil_cpu e) (get_cpu_info rt)),
      (opt_all a \<or> opt_memory a, ''memory'', answered (psutil_memory e) (get_memory_info rt)),
      (opt_all a \<or> opt_disk a, ''disk'',
         answered (disk_partitions e) (\<lambda>ps. PList (map disk_dict (get_disk_info rt ps)))),
      (opt_all a \<or> opt_network a, ''network'', answered (socket_network e) (get_network_info rt))]"

definition collectors :: "runtime \<Rightarrow> env \<Rightarrow> args \<Rightarrow> (bool \<times> string \<times> (exn + pyval)) list" where
  "collectors rt e a =
     first_collectors rt e a
     @ [(opt_all a \<or> opt_processes a, ''processes'',
         processes_outcome e (opt_sort_by a) (opt_limit a))]"

text \<open>
  Lines 198 to 217: the dict \<^verbatim>\<open>results\<close> after the six guarded assignments, or as it stands
  when a collector raises, with the exception (the run ends there).
\<close>

definition collect :: "runtime \<Rightarrow> env \<Rightarrow> args \<Rightarrow> (string \<times> pyval) list \<times> exn option" where
  "collect rt e a = run_collectors (collectors rt e a) []"

text \<open>
  One run of the program: what it printed (one element per \<^verbatim>\<open>print\<close>), the files it wrote
  (name and content), the dict \<^verbatim>\<open>results\<close> as it stands at the end, and the exception that
  ended the run, if any.
\<close>

record run =
  stdout :: "string list"
  files :: "(string \<times> string) list"
  snapshot :: "(string \<times> pyval) list"
  raised :: "exn option"

text \<open>
  \<^verbatim>\<open>save_to_file(data, filename)\<close>: the file holds \<^verbatim>\<open>json.dump(data, f, indent=4)\<close>. The
  file is taken to open for writing; a name that \<^verbatim>\<open>open\<close> refuses is outside this model.
\<close>

definition save_to_file :: "runtime \<Rightarrow> (string \<times> pyval) list \<Rightarrow> string \<Rightarrow> run" where
  "save_to_file rt data filename =
     \<lparr> stdout = [''Information saved to '' @ filename],
       files = [(filename, json_dumps rt 4 (PDict data))],
       snapshot = data,
       raised = None \<rparr>"

text \<open>
  \<^verbatim>\<open>if args.output: save_to_file(results, args.output) else: ...\<close>, where \<^verbatim>\<open>None\<close> and the
  empty string are false.
\<close>

definition to_file_or :: "runtime \<Rightarrow> string option \<Rightarrow> (string \<times> pyval) list \<Rightarrow> run \<Rightarrow> run" where
  "to_file_or rt output results printed =
     (case output of
        None \<Rightarrow> printed
      | Some filename \<Rightarrow> if filename = [] then printed else save_to_file rt results filename)"

text \<open>Lines 233 to 250: the sections present in \<^verbatim>\<open>results\<close>, with their titles, in this order.\<close>

definition section_titles :: "args \<Rightarrow> (string \<times> string) list" where
  "section_titles a =
     [(''system'', ''System Information''),
      (''cpu'', ''CPU Information''),
      (''memory'', ''Memory Information''),
      (''disk'', ''Disk Information''),
      (''network'', ''Network Information''),
      (''processes'',
         ''Top '' @ str_int (opt_limit a) @ '' Processes by ''
         @ (if opt_sort_by a = ''memory'' then ''Memory'' else ''CPU'') @ '' Usage'')]"

fun display_sections ::
  "runtime \<Rightarrow> (string \<times> pyval) list \<Rightarrow> (string \<times> string) list \<Rightarrow> string list \<times> exn option" where
  "display_sections rt results [] = ([], None)"
| "display_sections rt results ((key, title) # rest) =
     (case map_of results key of
        None \<Rightarrow> display_sections rt results rest
      | Some data \<Rightarrow>
          (case display_info rt data (Some title) of
             (out, Some x) \<Rightarrow> (out, Some x)
           | (out, None) \<Rightarrow>
               (case display_sections rt results rest of (out', x) \<Rightarrow> (out @ out', x))))"

definition print_sections :: "runtime \<Rightarrow> env \<Rightarrow> args \<Rightarrow> (string \<times> pyval) list \<Rightarrow> run" where
  "print_sections rt e a results =
     (case display_sections rt results (section_titles a) of
        (out, x) \<Rightarrow>
          \<lparr> stdout = (CHR 0x0A # ''System Information - '' @ now e @ [CHR 0x0A]) # out,
            files = [], snapshot = results, raised = x \<rparr>)"

definition main_args :: "runtime \<Rightarrow> env \<Rightarrow> args \<Rightarrow> run" where
  "main_args rt e a0 =
     (let a = default_section a0 in
      case collect rt e a of
        (results, Some x) \<Rightarrow> \<lparr> stdout = [], files = [], snapshot = results, raised = Some x \<rparr>
      | (results, None) \<Rightarrow>
          if opt_json a then
            to_file_or rt (opt_output a) results
              \<lparr> stdout = [json_dumps rt 4 (PDict results)], files = [],
                snapshot = results, raised = None \<rparr>
          else
            (let results = dict_set results ''timestamp'' (PStr (now e))
             in to_file_or rt (opt_output a) results (print_sections rt e a results)))"

text \<open>\<^verbatim>\<open>main()\<close> on a command line; \<open>None\<close> when argparse rejects it.\<close>

definition main :: "runtime \<Rightarrow> env \<Rightarrow> cli_option list \<Rightarrow> run option" where
  "main rt e argv = map_option (main_args rt e) (parse_args argv)"

text \<open>The names of the six sections, and the section keys of a snapshot.\<close>

definition section_names :: "string list" where
  "section_names = [''system'', ''cpu'', ''memory'', ''disk'', ''network'', ''processes'']"

definition sections :: "(string \<times> pyval) list \<Rightarrow> string list" where
  "sections results = filter (\<lambda>k. k \<in> set section_names) (map fst results)"


text \<open>The text a terminal receives from a sequence of \<^verbatim>\<open>print\<close> calls.\<close>

definition printed_text :: "string list \<Rightarrow> string" where
  "printed_text out = concat (map (\<lambda>line. line @ [CHR 0x0A]) out)"

text \<open>The key that a guarded assignment adds to a dict that does not have it yet.\<close>

definition key_if :: "bool \<Rightarrow> string \<Rightarrow> string list" where
  "key_if c k = (if c then [k] else [])"

text \<open>
  The statements of a sequence that store their value: those whose flag is set, up to the
  first one whose call raises. The exception of that call, if there is one.
\<close>

fun stored :: "(bool \<times> string \<times> (exn + pyval)) list \<Rightarrow> (bool \<times> string \<times> (exn + pyval)) list" where
  "stored [] = []"
| "stored ((wanted, key, outcome) # rest) =
     (if wanted
      then (case outcome of Inl x \<Rightarrow> [] | Inr v \<Rightarrow> (wanted, key, outcome) # stored rest)
      else stored rest)"

fun failure :: "(bool \<times> string \<times> (exn + pyval)) list \<Rightarrow> exn option" where
  "failure [] = None"
| "failure ((wanted, key, outcome) # rest) =
     (if wanted then (case outcome of Inl x \<Rightarrow> Some x | Inr v \<Rightarrow> failure rest) else failure rest)"

section \<open>Reading JSON back\<close>

text \<open>
  The program only writes JSON; the parser the round-trip property speaks of is the one of the
  Python library, \<^verbatim>\<open>json.loads\<close>. It is modelled here on the strings of this theory: the
  strict scanner of the library (whitespace, literals, strings with their escapes, the number
  pattern \<^verbatim>\<open>(-?(?:0|[1-9]\d*))(\.\d+)?([eE][-+]?\d+)?\<close>, arrays and objects). Two things of the
  library are outside the model: a \<^verbatim>\<open>\uXXXX\<close> escape above 255 (a character is one of 256
  code points here) and the literals \<^verbatim>\<open>NaN\<close> and \<^verbatim>\<open>Infinity\<close> (a float is a rational here);
  both are rejected.
\<close>

definition is_ws :: "char \<Rightarrow> bool" where
  "is_ws c = (c = CHR '' '' \<or> c = CHR 0x09 \<or> c = CHR 0x0A \<or> c = CHR 0x0D)"

definition skip_ws :: "string \<Rightarrow> string" where
  "skip_ws s = dropWhile is_ws s"

definition is_digit :: "char \<Rightarrow> bool" where
  "is_digit c = (48 \<le> (of_char c :: nat) \<and> (of_char c :: nat) \<le> 57)"

text \<open>The four hexadecimal digits of a \<^verbatim>\<open>\uXXXX\<close> escape, and the one-letter escapes.\<close>

definition hex_val :: "char \<Rightarrow> nat option" where
  "hex_val c =
     (let n = (of_char c :: nat)
      in if 48 \<le> n \<and> n \<le> 57 then Some (n - 48)
         else if 97 \<le> n \<and> n \<le> 102 then Some (n - 87)
         else if 65 \<le> n \<and> n \<le> 70 then Some (n - 55)
         else None)"

fun hex4 :: "string \<Rightarrow> nat option" where
  "hex4 [a, b, c, d] =
     (case (hex_val a, hex_val b, hex_val c, hex_val d) of
        (Some h, Some i, Some j, Some k) \<Rightarrow> Some (((h * 16 + i) * 16 + j) * 16 + k)
      | _ \<Rightarrow> None)"
| "hex4 _ = None"

definition unescape :: "char \<Rightarrow> char option" where
  "unescape e =
     (if e = CHR 0x22 then Some (CHR 0x22)
      else if e = CHR 0x5C then Some (CHR 0x5C)
      else if e = CHR ''/'' then Some (CHR ''/'')
      else if e = CHR ''b'' then Some (CHR 0x08)
      else if e = CHR ''f'' then Some (CHR 0x0C)
      else if e = CHR ''n'' then Some (CHR 0x0A)
      else if e = CHR ''r'' then Some (CHR 0x0D)
      else if e = CHR ''t'' then Some (CHR 0x09)
      else None)"

text \<open>
  \<^verbatim>\<open>scanstring\<close>, from the character after the opening quote: the string and the text after
  the closing quote. A raw control character ends the scan with an error (strict mode).
\<close>

definition cons_char :: "char \<Rightarrow> (string \<times> string) option \<Rightarrow> (string \<times> string) option" where
  "cons_char c r = map_option (\<lambda>p. (c # fst p, snd p)) r"

fun scanstring :: "string \<Rightarrow> (string \<times> string) option" where
  "scanstring [] = None"
| "scanstring (c # cs) =
     (if c = CHR 0x22 then Some ([], cs)
      else if c = CHR 0x5C then
        (case cs of
           [] \<Rightarrow> None
         | e # rest \<Rightarrow>
             if e = CHR ''u'' then
               (case hex4 (take 4 rest) of
                  None \<Rightarrow> None
                | Some n \<Rightarrow> if n < 256 then cons_char (char_of n) (scanstring (drop 4 rest)) else None)
             else
               (case unescape e of
                  None \<Rightarrow> None
                | Some d \<Rightarrow> cons_char d (scanstring rest)))
      else if (of_char c :: nat) < 32 then None
      else cons_char c (scanstring cs))"

text \<open>
  A number: the longest match of the number pattern, then \<^verbatim>\<open>int\<close> of the integer part when
  there is neither a fraction nor an exponent and \<^verbatim>\<open>float\<close> of the whole match otherwise.
\<close>

definition nat_of_digits :: "string \<Rightarrow> nat" where
  "nat_of_digits ds = foldl (\<lambda>a c. 10 * a + (of_char c - 48)) 0 ds"

definition int_of_text :: "string \<Rightarrow> int" where
  "int_of_text t =
     (case t of
        [] \<Rightarrow> 0
      | c # cs \<Rightarrow> if c = CHR ''-'' then - int (nat_of_digits cs) else int (nat_of_digits t))"

definition scan_sign :: "string \<Rightarrow> string \<times> string" where
  "scan_sign s = (case s of [] \<Rightarrow> ([], []) | c # cs \<Rightarrow> if c = CHR ''-'' then ([c], cs) else ([], s))"

definition scan_integer :: "string \<Rightarrow> (string \<times> string) option" where
  "scan_integer s =
     (case s of
        [] \<Rightarrow> None
      | c # cs \<Rightarrow>
          if c = CHR ''0'' then Some ([c], cs)
          else if is_digit c then Some (c # takeWhile is_digit cs, dropWhile is_digit cs)
          else None)"

definition scan_frac :: "string \<Rightarrow> string \<times> string" where
  "scan_frac s =
     (case s of
        c # d # cs \<Rightarrow>
          if c = CHR ''.'' \<and> is_digit d
          then (c # d # takeWhile is_digit cs, dropWhile is_digit cs)
          else ([], s)
      | _ \<Rightarrow> ([], s))"

definition scan_exp :: "string \<Rightarrow> string \<times> string" where
  "scan_exp s =
     (case s of
        [] \<Rightarrow> ([], s)
      | e # cs \<Rightarrow>
          if e = CHR ''e'' \<or> e = CHR ''E'' then
            (case cs of
               [] \<Rightarrow> ([], s)
             | d # ds \<Rightarrow>
                 if is_digit d then (e # d # takeWhile is_digit ds, dropWhile is_digit ds)
                 else if d = CHR ''+'' \<or> d = CHR ''-'' then
                   (case ds of
                      [] \<Rightarrow> ([], s)
                    | g # gs \<Rightarrow>
                        if is_digit g then (e # d # g # takeWhile is_digit gs, dropWhile is_digit gs)
                        else ([], s))
                 else ([], s))
          else ([], s))"

definition match_number :: "string \<Rightarrow> (string \<times> string \<times> string \<times> string) option" where
  "match_number s =
     (case scan_sign s of (dash, s1) \<Rightarrow>
        (case scan_integer s1 of
           None \<Rightarrow> None
         | Some (digits, s2) \<Rightarrow>
             (case scan_frac s2 of (fraction, s3) \<Rightarrow>
                (case scan_exp s3 of (exponent, s4) \<Rightarrow>
                   Some (dash @ digits, fraction, exponent, s4)))))"

definition scan_number :: "runtime \<Rightarrow> string \<Rightarrow> (pyval \<times> string) option" where
  "scan_number rt s =
     (case match_number s of
        None \<Rightarrow> None
      | Some (integer, fraction, exponent, rest) \<Rightarrow>
          if fraction = [] \<and> exponent = [] then Some (PInt (int_of_text integer), rest)
          else Some (PFloat (float_parse rt (integer @ fraction @ exponent)), rest))"

text \<open>\<^verbatim>\<open>null\<close>, \<^verbatim>\<open>true\<close> and \<^verbatim>\<open>false\<close>; and \<^verbatim>\<open>dict(pairs)\<close>, where a later pair with the same key wins.\<close>

definition literal :: "string \<Rightarrow> pyval \<Rightarrow> string \<Rightarrow> (pyval \<times> string) option" where
  "literal word v s = (if take (length word) s = word then Some (v, drop (length word) s) else None)"

definition dict_of_pairs :: "(string \<times> pyval) list \<Rightarrow> (string \<times> pyval) list" where
  "dict_of_pairs pairs = fold (\<lambda>kv d. dict_set d (fst kv) (snd kv)) pairs []"

text \<open>
  \<^verbatim>\<open>scan_once\<close> with the array and object scanners it calls. The recursion of the library
  follows the nesting of the text; here every call takes a bound on the number of nested calls
  still allowed and returns \<open>None\<close> when it is used up. \<^verbatim>\<open>json.loads\<close> starts with one more
  than the length of the text, which no text can use up, skips leading whitespace, and
  rejects anything but whitespace after the value.
\<close>

fun scan_once :: "runtime \<Rightarrow> nat \<Rightarrow> string \<Rightarrow> (pyval \<times> string) option"
and parse_array :: "runtime \<Rightarrow> nat \<Rightarrow> string \<Rightarrow> (pyval list \<times> string) option"
and parse_object :: "runtime \<Rightarrow> nat \<Rightarrow> string \<Rightarrow> ((string \<times> pyval) list \<times> string) option"
where
  "scan_once rt 0 s = None"
| "scan_once rt (Suc n) s =
     (case s of
        [] \<Rightarrow> None
      | c # cs \<Rightarrow>
          if c = CHR 0x22 then map_option (\<lambda>p. (PStr (fst p), snd p)) (scanstring cs)
          else if c = CHR ''{'' then
            (case skip_ws cs of
               [] \<Rightarrow> None
             | d # ds \<Rightarrow>
                 if d = CHR ''}'' then Some (PDict [], ds)
                 else map_option (\<lambda>p. (PDict (dict_of_pairs (fst p)), snd p))
                        (parse_object rt n (d # ds)))
          else if c = CHR ''['' then
            (case skip_ws cs of
               [] \<Rightarrow> None
             | d # ds \<Rightarrow>
                 if d = CHR '']'' then Some (PList [], ds)
                 else map_option (\<lambda>p. (PList (fst p), snd p)) (parse_array rt n (d # ds)))
          else if c = CHR ''n'' then literal ''null'' PNone s
          else if c = CHR ''t'' then literal ''true'' (PBool True) s
          else if c = CHR ''f'' then literal ''false'' (PBool False) s
          else scan_number rt s)"
| "parse_array rt 0 s = None"
| "parse_array rt (Suc n) s =
     (case scan_once rt n s of
        None \<Rightarrow> None
      | Some (v, r) \<Rightarrow>
          (case skip_ws r of
             [] \<Rightarrow> None
           | d # ds \<Rightarrow>
               if d = CHR '']'' then Some ([v], ds)
               else if d = CHR '','' then
                 map_option (\<lambda>p. (v # fst p, snd p)) (parse_array rt n (skip_ws ds))
               else None))"
| "parse_object rt 0 s = None"
| "parse_object rt (Suc n) s =
     (case s of
        [] \<Rightarrow> None
      | q # cs \<Rightarrow>
          if q \<noteq> CHR 0x22 then None
          else
            (case scanstring cs of
               None \<Rightarrow> None
             | Some (key, r) \<Rightarrow>
                 (case skip_ws r of
                    [] \<Rightarrow> None
                  | colon # r1 \<Rightarrow>
                      if colon \<noteq> CHR '':'' then None
                      else
                        (case scan_once rt n (skip_ws r1) of
                           None \<Rightarrow> None
                         | Some (v, r2) \<Rightarrow>
                             (case skip_ws r2 of
                                [] \<Rightarrow> None
                              | d # ds \<Rightarrow>
                                  if d = CHR ''}'' then Some ([(key, v)], ds)
                                  else if d = CHR '','' then
                                    map_option (\<lambda>p. ((key, v) # fst p, snd p))
                                      (parse_object rt n (skip_ws ds))
                                  else None)))))"

definition json_loads :: "runtime \<Rightarrow> string \<Rightarrow> pyval option" where
  "json_loads rt s =
     (case scan_once rt (Suc (length s)) (skip_ws s) of
        None \<Rightarrow> None
      | Some (v, rest) \<Rightarrow> if skip_ws rest = [] then Some v else None)"

text \<open>What may follow a value in the output of the encoder: nothing, a comma or a newline.\<close>

definition delimited :: "string \<Rightarrow> bool" where
  "delimited rest = (case rest of [] \<Rightarrow> True | c # cs \<Rightarrow> c = CHR '','' \<or> c = CHR 0x0A)"

text \<open>
  The assumption on the floating-point parameters of the runtime for one float: its text is a
  JSON number with a fraction or an exponent, and \<^verbatim>\<open>float\<close> of that text is the float again
  (what Python guarantees for \<^verbatim>\<open>repr\<close> of a finite float).
\<close>

definition float_ok :: "runtime \<Rightarrow> rat \<Rightarrow> bool" where
  "float_ok rt x =
     (case match_number (float_repr rt x) of
        None \<Rightarrow> False
      | Some (integer, fraction, exponent, rest) \<Rightarrow>
          rest = [] \<and> (fraction \<noteq> [] \<or> exponent \<noteq> [])
          \<and> float_parse rt (integer @ fraction @ exponent) = x)"

text \<open>
  A value as Python can hold it: no dict has a key twice, and every float in it satisfies the
  assumption above.
\<close>

fun json_ok :: "runtime \<Rightarrow> pyval \<Rightarrow> bool" where
  "json_ok rt (PFloat x) = float_ok rt x"
| "json_ok rt (PList xs) = list_all (json_ok rt) xs"
| "json_ok rt (PDict kvs) = (distinct (map fst kvs) \<and> list_all (\<lambda>kv. json_ok rt (snd kv)) kvs)"
| "json_ok rt _ = True"

text \<open>The same assumption for the floats a host reports: CPU frequencies and process percentages.\<close>

definition opt_float_ok :: "runtime \<Rightarrow> rat option \<Rightarrow> bool" where
  "opt_float_ok rt x = (case x of None \<Rightarrow> True | Some y \<Rightarrow> float_ok rt y)"

definition floats_ok :: "runtime \<Rightarrow> env \<Rightarrow> bool" where
  "floats_ok rt e =
     ((case psutil_cpu e of
         Inl x \<Rightarrow> True
       | Inr c \<Rightarrow>
           (case psutil_cpu_freq c of
              None \<Rightarrow> True
            | Some f \<Rightarrow> float_ok rt (freq_max f) \<and> float_ok rt (freq_current f)))
      \<and> (case process_iter e of
            Inl x \<Rightarrow> True
          | Inr qs \<Rightarrow>
              list_all (\<lambda>p. opt_float_ok rt (memory_percent p) \<and> opt_float_ok rt (cpu_percent p))
                (infos qs)))"

section \<open>A small host for the examples\<close>

text \<open>
  A runtime that knows the text of three floats and iterates a set in insertion order, two
  processes, and a host with one readable and one unreadable partition.
\<close>

definition demo_runtime :: runtime where
  "demo_runtime =
     \<lparr> float_repr = (\<lambda>x. if x = 3 / 2 then ''1.5'' else if x = 1 / 2 then ''0.5'' else ''0.0''),
       float_parse = (\<lambda>s. if s = ''1.5'' then 3 / 2 else if s = ''0.5'' then 1 / 2 else 0),
       true_div = (\<lambda>a b. 0),
       round_ndigits = (\<lambda>x n. x),
       set_iter = (\<lambda>keys. keys),
       unicode_capitalize = (\<lambda>s. s) \<rparr>"

definition demo_init :: process_entry where
  "demo_init =
     \<lparr> pid = 1, name = Some ''init'', username = Some ''root'',
       memory_percent = Some (1 / 2), cpu_percent = Some (3 / 2) \<rparr>"

definition demo_shell :: process_entry where
  "demo_shell =
     \<lparr> pid = 2, name = Some ''sh'', username = Some ''bob'',
       memory_percent = Some (3 / 2), cpu_percent = Some 0 \<rparr>"

text \<open>A process of another user: psutil reports \<^verbatim>\<open>None\<close> for what it may not read.\<close>

definition demo_denied :: process_entry where
  "demo_denied =
     \<lparr> pid = 3, name = Some ''sshd'', username = None,
       memory_percent = None, cpu_percent = None \<rparr>"

definition demo_root :: partition where
  "demo_root = \<lparr> device = ''/dev/sda1'', mountpoint = ''/'', fstype = ''ext4'' \<rparr>"

definition demo_cdrom :: partition where
  "demo_cdrom = \<lparr> device = ''/dev/sr0'', mountpoint = ''/mnt'', fstype = ''iso9660'' \<rparr>"

definition demo_usage :: disk_usage where
  "demo_usage = \<lparr> du_total = 10, du_used = 5, du_free = 5, du_percent = 1 / 2 \<rparr>"

definition demo_env :: env where
  "demo_env =
     \<lparr> platform_system = ''Linux'', platform_node = ''box'', platform_release = ''6.1'',
       platform_version = ''#1'', platform_machine = ''x86_64'', platform_processor = [],
       platform_python_version = ''3.11.10'',
       psutil_cpu = Inr
         \<lparr> cpu_count_physical = None, cpu_count_logical = Some 2, psutil_cpu_freq = None,
           cpu_percent_percpu = [1 / 2, 3 / 2], cpu_percent_total = 0 \<rparr>,
       psutil_memory = Inr
         \<lparr> vm_total = 100, vm_available = 50, vm_used = 50, vm_percent = 1 / 2,
           swap_total = 0, swap_used = 0, swap_percent = 0 \<rparr>,
       disk_partitions = Inr [(demo_root, Inr demo_usage), (demo_cdrom, Inl OSError)],
       socket_network = Inr
         \<lparr> gethostname = ''box'', gethostbyname = ''127.0.0.1'',
           net_io_counters =
             [(''lo'', \<lparr> bytes_sent = 1, bytes_recv = 2, packets_sent = 3, packets_recv = 4 \<rparr>)] \<rparr>,
       process_iter = Inr [Info demo_init, Info demo_shell],
       now = ''2024-01-01 00:00:00'' \<rparr>"

text \<open>The same host when its name does not resolve, and when it lists the process of another user.\<close>

definition demo_unresolved :: env where
  "demo_unresolved = demo_env\<lparr> socket_network := Inl OSError \<rparr>"

definition demo_multiuser :: env where
  "demo_multiuser = demo_env\<lparr> process_iter := Inr [Info demo_init, Info demo_denied, Info demo_shell] \<rparr>"

section \<open>Properties of the process collector\<close>


lemma enumerate_processes_Inr:
  "enumerate_processes qs acc = Inr r \<Longrightarrow> r = acc @ infos qs"
  by (induction qs acc rule: enumerate_processes.induct) (auto split: if_splits)

lemma those_Some: "those ys = Some zs \<Longrightarrow> ys = map Some zs"
  by (induction ys arbitrary: zs) (auto split: option.splits)






lemma mset_sort_reverse: "sort_reverse k xs = Inr r \<Longrightarrow> mset r = mset xs"
proof -
  assume a: "sort_reverse k xs = Inr r"
  show ?thesis
  proof (cases "length xs < 2")
    case True
    with a show ?thesis by (simp add: sort_reverse_def)
  next
    case False
    with a obtain keys where t: "those (map k xs) = Some keys"
      and r: "r = map snd (rev (sort_key fst (rev (zip keys xs))))"
      by (auto simp add: sort_reverse_def split: option.splits)
    from those_Some [OF t] have "length keys = length xs" by (metis length_map)
    then have "map snd (zip keys xs) = xs" by simp
    then have "mset (map snd (zip keys xs)) = mset xs" by simp
    then show ?thesis unfolding r by simp
  qed
qed

lemma length_sort_reverse: "sort_reverse k xs = Inr r \<Longrightarrow> length r = length xs"
  by (drule mset_sort_reverse) (rule mset_eq_length)




lemma mset_slice_to: "mset (slice_to limit xs) \<subseteq># mset xs"
proof -
  have "mset (take n xs) \<subseteq># mset xs" for n
    by (metis append_take_drop_id mset_append mset_subset_eq_add_left)
  then show ?thesis by (simp add: slice_to_def)
qed

lemma get_process_info_Inr:
  assumes "get_process_info qs sort_by limit = Inr r"
  shows "\<exists>sorted_processes.
           sort_reverse (sort_metric sort_by) (infos qs) = Inr sorted_processes
           \<and> r = slice_to limit sorted_processes"
proof -
  from assms obtain processes where e: "enumerate_processes qs [] = Inr processes"
    by (auto simp add: get_process_info_def split: sum.splits)
  from enumerate_processes_Inr [OF e] have "processes = infos qs" by simp
  with assms e show ?thesis
    by (auto simp add: get_process_info_def split: sum.splits)
qed





text \<open>
  Claim C8 does not hold of the code. A process that denies access, or a zombie, does not make
  \<^verbatim>\<open>proc.info\<close> raise: \<^verbatim>\<open>process_iter\<close> has stored \<^verbatim>\<open>None\<close> for what it could not read, the
  \<^verbatim>\<open>except\<close> clause is not entered, and the entry is appended like any other. With such a
  process among three, sorting by memory raises TypeError: the collector returns no list at
  all. Alone in the enumeration, the process is not dropped either: it is the list returned.
\<close>

theorem get_process_info_denied_process:
  "get_process_info [Info demo_init, Info demo_denied, Info demo_shell] ''memory'' 10 = Inl TypeError
   \<and> get_process_info [Info demo_denied] ''memory'' 10 = Inr [demo_denied]"
  by (simp add: get_process_info_def sort_reverse_def slice_to_def sort_metric_def
        demo_init_def demo_shell_def demo_denied_def)

section \<open>Properties of the disk collector and of the empty mapping\<close>

lemma disk_loop_eq:
  "disk_loop rt ps acc
     = acc @ map (\<lambda>pr. make_disk_entry rt (fst pr) (projr (snd pr))) (filter usage_ok ps)"
  by (induction rt ps acc rule: disk_loop.induct) simp_all

lemma entry_partition_make: "entry_partition (make_disk_entry rt p u) = p"
  by (simp add: entry_partition_def make_disk_entry_def)

text \<open>
  Claim C4. The entries of the disk collector are built, in order, from exactly the partitions
  whose usage query succeeds: reading the partition back from each entry gives the list of the
  partitions with a successful query, so a partition has an entry if and only if its query
  succeeds. A failing query adds nothing, and the collector returns its list whatever the
  queries do (the function is total: the bare \<^verbatim>\<open>except\<close> leaves no exception to propagate).
\<close>

theorem get_disk_info_readable_only:
  "get_disk_info rt ps
     = map (\<lambda>pr. make_disk_entry rt (fst pr) (projr (snd pr))) (filter usage_ok ps)
   \<and> map entry_partition (get_disk_info rt ps) = map fst (filter usage_ok ps)"
  by (simp add: get_disk_info_def disk_loop_eq entry_partition_make comp_def)

theorem get_disk_info_readable_only_witness:
  "get_disk_info demo_runtime [(demo_root, Inr demo_usage), (demo_cdrom, Inl OSError)]
     = [make_disk_entry demo_runtime demo_root demo_usage]
   \<and> map entry_partition
        (get_disk_info demo_runtime [(demo_root, Inr demo_usage), (demo_cdrom, Inl OSError)])
       = [demo_root]"
  using get_disk_info_readable_only
          [of demo_runtime "[(demo_root, Inr demo_usage), (demo_cdrom, Inl OSError)]"]
  by (simp add: entry_partition_make)

text \<open>
  Claim C9. On the empty mapping \<^verbatim>\<open>display_info\<close> fails: after the title, if any, \<^verbatim>\<open>max\<close> is
  taken over no key length at all and raises ValueError. The text formatter is therefore not
  total over the values it accepts.
\<close>

theorem display_info_empty_mapping:
  "display_info rt (PDict []) title = (title_lines title, Some ValueError)"
  by (simp add: display_info_def)

section \<open>The keys of the collected sections\<close>


lemma map_fst_dict_set:
  "map fst (dict_set r k v) = (if k \<in> set (map fst r) then map fst r else map fst r @ [k])"
  by (induction r k v rule: dict_set.induct) auto

lemma values_dict_set:
  "\<forall>kd \<in> set r. P (snd kd) \<Longrightarrow> P v \<Longrightarrow> \<forall>kd \<in> set (dict_set r k v). P (snd kd)"
  by (induction r k v rule: dict_set.induct) auto

lemma run_collectors_raised: "snd (run_collectors steps r) = failure steps"
  by (induction steps r rule: run_collectors.induct) (auto split: sum.split)

lemma run_collectors_keys:
  "distinct (map (\<lambda>s. fst (snd s)) steps)
     \<Longrightarrow> \<forall>s \<in> set steps. fst (snd s) \<notin> set (map fst r)
     \<Longrightarrow> map fst (fst (run_collectors steps r)) = map fst r @ map (\<lambda>s. fst (snd s)) (stored steps)"
proof (induction steps r rule: run_collectors.induct)
  case (1 results)
  then show ?case by simp
next
  case (2 wanted key outcome rest results)
  show ?case
  proof (cases wanted)
    case False
    with 2 show ?thesis by simp
  next
    case True
    show ?thesis
    proof (cases outcome)
      case (Inl x)
      with True show ?thesis by simp
    next
      case (Inr v)
      from "2.prems" have k: "key \<notin> set (map fst results)" by simp
      then have d: "map fst (dict_set results key v) = map fst results @ [key]"
        by (simp add: map_fst_dict_set)
      from "2.prems" have "\<forall>s \<in> set rest. fst (snd s) \<notin> set (map fst (dict_set results key v))"
        unfolding d by auto
      moreover from "2.prems" have "distinct (map (\<lambda>s. fst (snd s)) rest)" by simp
      ultimately have "map fst (fst (run_collectors rest (dict_set results key v)))
          = map fst (dict_set results key v) @ map (\<lambda>s. fst (snd s)) (stored rest)"
        using "2.IH"(1) [OF True Inr] by blast
      with True Inr d show ?thesis by simp
    qed
  qed
qed

lemma run_collectors_values:
  "\<forall>kd \<in> set r. P (snd kd)
     \<Longrightarrow> \<forall>s \<in> set steps. \<forall>v. snd (snd s) = Inr v \<longrightarrow> P v
     \<Longrightarrow> \<forall>kd \<in> set (fst (run_collectors steps r)). P (snd kd)"
proof (induction steps r rule: run_collectors.induct)
  case (1 results)
  then show ?case by simp
next
  case (2 wanted key outcome rest results)
  show ?case
  proof (cases wanted)
    case False
    with 2 show ?thesis by simp
  next
    case True
    show ?thesis
    proof (cases outcome)
      case (Inl x)
      with True 2 show ?thesis by simp
    next
      case (Inr v)
      with "2.prems" have "P v" by simp
      with "2.prems" have "\<forall>kd \<in> set (dict_set results key v). P (snd kd)"
        by (intro values_dict_set) simp_all
      with "2.IH"(1) [OF True Inr] "2.prems" True Inr show ?thesis by simp
    qed
  qed
qed


lemma stored_prefix:
  "list_all fst steps \<Longrightarrow> prefix (map (\<lambda>s. fst (snd s)) (stored steps)) (map (\<lambda>s. fst (snd s)) steps)"
  by (induction steps rule: stored.induct) (auto split: sum.split)

lemma stored_complete: "failure steps = None \<Longrightarrow> stored steps = filter fst steps"
  by (induction steps rule: stored.induct) (auto split: sum.splits)



lemma collectors_keys: "map (\<lambda>s. fst (snd s)) (collectors rt e a) = section_names"
  by (simp add: collectors_def first_collectors_def section_names_def)

lemma collect_raised: "snd (collect rt e a) = failure (collectors rt e a)"
  by (simp add: collect_def run_collectors_raised)

lemma collect_keys:
  "map fst (fst (collect rt e a)) = map (\<lambda>s. fst (snd s)) (stored (collectors rt e a))"
proof -
  have "distinct (map (\<lambda>s. fst (snd s)) (collectors rt e a))"
    unfolding collectors_keys by (simp add: section_names_def)
  then show ?thesis
    unfolding collect_def using run_collectors_keys [of "collectors rt e a" "[]"] by simp
qed


lemma stored_set: "set (stored steps) \<subseteq> set steps"
  by (induction steps rule: stored.induct) (auto split: sum.splits)

lemma collect_keys_sections: "set (map fst (fst (collect rt e a))) \<subseteq> set section_names"
proof -
  have "set (map (\<lambda>s. fst (snd s)) (stored (collectors rt e a)))
          \<subseteq> set (map (\<lambda>s. fst (snd s)) (collectors rt e a))"
    using stored_set [of "collectors rt e a"] by auto
  then show ?thesis by (simp only: collect_keys collectors_keys)
qed

lemma stored_distinct:
  "distinct (map (\<lambda>s. fst (snd s)) steps) \<Longrightarrow> distinct (map (\<lambda>s. fst (snd s)) (stored steps))"
proof (induction steps rule: stored.induct)
  case 1
  show ?case by simp
next
  case (2 wanted key outcome rest)
  have "key \<notin> (\<lambda>s. fst (snd s)) ` set (stored rest)"
    using "2.prems" stored_set [of rest] by auto
  with 2 show ?case by (auto split: sum.splits)
qed

lemma collect_keys_distinct: "distinct (map fst (fst (collect rt e a)))"
  unfolding collect_keys
  by (rule stored_distinct) (simp add: collectors_keys section_names_def)

lemma timestamp_not_collected: "''timestamp'' \<notin> set (map fst (fst (collect rt e a)))"
  using collect_keys_sections [of rt e a] by (auto simp add: section_names_def)


section \<open>The text formatter does not fail on collected sections\<close>

lemma display_dict_ok: "kvs \<noteq> [] \<Longrightarrow> snd (display_info rt (PDict kvs) t) = None"
  by (simp add: display_info_def)

lemma all_dicts_records: "all_dicts (map (\<lambda>x. PDict (g x)) xs) = Some (map g xs)"
  by (induction xs) simp_all

lemma display_records_ok: "snd (display_info rt (PList (map (\<lambda>x. PDict (g x)) xs)) t) = None"
proof (cases xs)
  case Nil
  then show ?thesis by (simp add: display_info_def display_list_def)
next
  case (Cons x ys)
  have "all_dicts (PDict (g x) # map (\<lambda>x. PDict (g x)) ys) = Some (map g (x # ys))"
    using all_dicts_records [of g "x # ys"] by simp
  with Cons show ?thesis
    by (simp add: display_info_def display_list_def Let_def split: prod.split)
qed

lemma display_scalar_ok: "snd (display_info rt (PStr s) t) = None"
  by (simp add: display_info_def)

lemma disk_dict_fun:
  "disk_dict = (\<lambda>e. PDict
     [(''device'', PStr (de_device e)),
      (''mountpoint'', PStr (de_mountpoint e)),
      (''file_system'', PStr (de_file_system e)),
      (''total_size'', PStr (de_total_size e)),
      (''used'', PStr (de_used e)),
      (''free'', PStr (de_free e)),
      (''percentage'', PStr (de_percentage e))])"
  by (rule ext) (simp add: disk_dict_def)

lemma process_dict_fun:
  "process_dict = (\<lambda>e. PDict
     [(''pid'', PInt (pid e)),
      (''name'', opt_str (name e)),
      (''username'', opt_str (username e)),
      (''memory_percent'', opt_float (memory_percent e)),
      (''cpu_percent'', opt_float (cpu_percent e))])"
  by (rule ext) (simp add: process_dict_def)

lemma display_disk_ok: "snd (display_info rt (PList (map disk_dict xs)) t) = None"
  unfolding disk_dict_fun by (rule display_records_ok)

lemma display_processes_ok: "snd (display_info rt (PList (map process_dict xs)) t) = None"
  unfolding process_dict_fun by (rule display_records_ok)

lemma display_collectors_ok:
  "snd (display_info rt (get_system_info e) t) = None"
  "snd (display_info rt (get_cpu_info rt c) t) = None"
  "snd (display_info rt (get_memory_info rt m) t) = None"
  "snd (display_info rt (get_network_info rt n) t) = None"
  by (simp_all add: get_system_info_def get_cpu_info_def get_memory_info_def
        get_network_info_def display_dict_ok)

lemma answered_Inr: "answered outcome build = Inr v \<Longrightarrow> \<exists>d. outcome = Inr d \<and> v = build d"
  by (cases outcome) (simp_all add: answered_def)

lemma processes_outcome_Inr:
  "processes_outcome e sort_by limit = Inr v
     \<Longrightarrow> \<exists>qs ps. process_iter e = Inr qs \<and> get_process_info qs sort_by limit = Inr ps
                \<and> v = PList (map process_dict ps)"
  by (cases "process_iter e") (auto simp add: processes_outcome_def dest: answered_Inr)

lemma collect_values:
  assumes "P (get_system_info e)"
    and "\<And>c. psutil_cpu e = Inr c \<Longrightarrow> P (get_cpu_info rt c)"
    and "\<And>m. P (get_memory_info rt m)"
    and "\<And>xs. P (PList (map disk_dict xs))"
    and "\<And>n. P (get_network_info rt n)"
    and "\<And>qs ps. process_iter e = Inr qs
           \<Longrightarrow> get_process_info qs (opt_sort_by a) (opt_limit a) = Inr ps
           \<Longrightarrow> P (PList (map process_dict ps))"
  shows "\<forall>kd \<in> set (fst (collect rt e a)). P (snd kd)"
proof -
  have "\<forall>s \<in> set (collectors rt e a). \<forall>v. snd (snd s) = Inr v \<longrightarrow> P v"
    using assms
    by (auto simp add: collectors_def first_collectors_def
          dest!: answered_Inr processes_outcome_Inr)
  then show ?thesis
    unfolding collect_def by (intro run_collectors_values) simp_all
qed

lemma collect_displays:
  "\<forall>kd \<in> set (fst (collect rt e a)). \<forall>t. snd (display_info rt (snd kd) t) = None"
  by (rule collect_values) (simp_all add: display_collectors_ok display_disk_ok display_processes_ok)

lemma display_sections_ok:
  assumes "\<forall>kd \<in> set results. \<forall>t. snd (display_info rt (snd kd) t) = None"
  shows "snd (display_sections rt results titles) = None"
proof (induction titles)
  case Nil
  show ?case by simp
next
  case (Cons kt titles)
  obtain key title where kt: "kt = (key, title)" by (cases kt)
  show ?case
  proof (cases "map_of results key")
    case None
    with Cons kt show ?thesis by simp
  next
    case (Some d)
    then have "(key, d) \<in> set results" by (rule map_of_SomeD)
    with assms have "snd (display_info rt d (Some title)) = None" by fastforce
    then obtain out where di: "display_info rt d (Some title) = (out, None)"
      by (cases "display_info rt d (Some title)") simp
    from Cons obtain out' where ds: "display_sections rt results titles = (out', None)"
      by (cases "display_sections rt results titles") simp
    from kt Some di ds show ?thesis by simp
  qed
qed

section \<open>Properties of a run\<close>

lemma to_file_or_snapshot:
  "snapshot printed = results \<Longrightarrow> snapshot (to_file_or rt out results printed) = results"
  by (simp add: to_file_or_def save_to_file_def split: option.split)

lemma to_file_or_raised:
  "raised (to_file_or rt out results printed)
     = (case out of None \<Rightarrow> raised printed | Some f \<Rightarrow> if f = [] then raised printed else None)"
  by (simp add: to_file_or_def save_to_file_def split: option.split)

lemma to_file_or_file:
  "f \<noteq> [] \<Longrightarrow> to_file_or rt (Some f) results printed = save_to_file rt results f"
  by (simp add: to_file_or_def)

lemma default_section_keeps:
  "opt_json (default_section a) = opt_json a"
  "opt_output (default_section a) = opt_output a"
  by (simp_all add: default_section_def)

lemma print_sections_fields:
  "snapshot (print_sections rt e a results) = results"
  "files (print_sections rt e a results) = []"
  "raised (print_sections rt e a results) = snd (display_sections rt results (section_titles a))"
  by (simp_all add: print_sections_def split: prod.split)

lemma main_args_raised:
  "raised (main_args rt e a) = snd (collect rt e (default_section a))"
proof -
  obtain results x where c: "collect rt e (default_section a) = (results, x)"
    by (cases "collect rt e (default_section a)")
  have v: "\<forall>kd \<in> set results. \<forall>t. snd (display_info rt (snd kd) t) = None"
    using collect_displays [of rt e "default_section a"] c by simp
  show ?thesis
  proof (cases x)
    case (Some y)
    with c show ?thesis by (simp add: main_args_def Let_def)
  next
    case None
    have "\<forall>kd \<in> set (dict_set results ''timestamp'' (PStr (now e))).
            \<forall>t. snd (display_info rt (snd kd) t) = None"
      by (intro values_dict_set v allI display_scalar_ok)
    then have "snd (display_sections rt (dict_set results ''timestamp'' (PStr (now e)))
                 (section_titles (default_section a))) = None"
      by (rule display_sections_ok)
    with c None show ?thesis
      by (simp add: main_args_def Let_def to_file_or_raised print_sections_fields
            split: option.split)
  qed
qed

lemma main_args_snapshot:
  "snapshot (main_args rt e a)
     = (if snd (collect rt e (default_section a)) = None \<and> \<not> opt_json a
        then dict_set (fst (collect rt e (default_section a))) ''timestamp'' (PStr (now e))
        else fst (collect rt e (default_section a)))"
proof -
  obtain results x where c: "collect rt e (default_section a) = (results, x)"
    by (cases "collect rt e (default_section a)")
  show ?thesis
  proof (cases x)
    case (Some y)
    with c show ?thesis by (simp add: main_args_def Let_def)
  next
    case None
    with c show ?thesis
      by (simp add: main_args_def Let_def to_file_or_snapshot print_sections_fields
            default_section_keeps)
  qed
qed

lemma main_args_keys:
  "map fst (snapshot (main_args rt e a))
     = map fst (fst (collect rt e (default_section a)))
       @ key_if (raised (main_args rt e a) = None \<and> \<not> opt_json a) ''timestamp''"
  using timestamp_not_collected [of rt e "default_section a"]
  by (simp add: main_args_snapshot main_args_raised map_fst_dict_set key_if_def)

lemma main_args_sections:
  "sections (snapshot (main_args rt e a)) = map fst (fst (collect rt e (default_section a)))"
proof -
  have t: "filter (\<lambda>k. k \<in> set section_names) (key_if c ''timestamp'') = []" for c
    by (simp add: key_if_def section_names_def)
  have "filter (\<lambda>k. k \<in> set section_names) (map fst (fst (collect rt e (default_section a))))
          = map fst (fst (collect rt e (default_section a)))"
    using collect_keys_sections [of rt e "default_section a"] by (intro filter_True) auto
  then show ?thesis
    by (simp add: sections_def main_args_keys t)
qed


lemma collect_default:
  "\<not> any_section a \<Longrightarrow> collect rt e (default_section a) = ([(''system'', get_system_info e)], None)"
  by (simp add: collect_def collectors_def first_collectors_def default_section_def any_section_def)

text \<open>
  Claim C3. When none of the seven section flags is set in the namespace, the run ends without
  an exception and the only section of the resulting snapshot is \<^verbatim>\<open>system\<close>: the keys of
  \<^verbatim>\<open>results\<close> are \<^verbatim>\<open>system\<close> alone with \<^verbatim>\<open>--json\<close>, and \<^verbatim>\<open>system\<close> followed by the
  \<^verbatim>\<open>timestamp\<close> string (which is not a section) in text mode.
\<close>

theorem default_invocation_system_only:
  assumes "\<not> any_section a"
  shows "raised (main_args rt e a) = None
       \<and> sections (snapshot (main_args rt e a)) = [''system'']
       \<and> map fst (snapshot (main_args rt e a))
           = (if opt_json a then [''system''] else [''system'', ''timestamp''])"
  by (simp add: main_args_raised main_args_sections main_args_keys collect_default [OF assms]
        key_if_def)

theorem default_invocation_system_only_witness:
  "\<not> any_section default_args
   \<and> raised (main_args demo_runtime demo_env default_args) = None
   \<and> sections (snapshot (main_args demo_runtime demo_env default_args)) = [''system'']
   \<and> map fst (snapshot (main_args demo_runtime demo_env default_args)) = [''system'', ''timestamp'']"
  using default_invocation_system_only [of default_args demo_runtime demo_env]
  by (simp add: any_section_def default_args_def)

lemma all_collectors_wanted: "opt_all a \<Longrightarrow> list_all fst (collectors rt e a)"
  by (simp add: collectors_def first_collectors_def)

lemma default_section_all: "opt_all a \<Longrightarrow> default_section a = a"
  by (simp add: default_section_def any_section_def)

text \<open>
  Claim C7, as the code has it. With \<^verbatim>\<open>--all\<close> set, the sections of the snapshot are always
  the first ones of system, cpu, memory, disk, network, processes, in this order, and every
  run that ends without an exception has all six of them.
\<close>

theorem all_flag_six_sections:
  assumes "opt_all a"
  shows "prefix (sections (snapshot (main_args rt e a))) section_names
       \<and> (raised (main_args rt e a) = None \<longrightarrow>
            sections (snapshot (main_args rt e a)) = section_names)"
proof
  from assms have w: "list_all fst (collectors rt e a)"
    by (rule all_collectors_wanted)
  have s: "sections (snapshot (main_args rt e a))
             = map (\<lambda>s. fst (snd s)) (stored (collectors rt e a))"
    by (simp add: main_args_sections default_section_all [OF assms] collect_keys)
  show "prefix (sections (snapshot (main_args rt e a))) section_names"
    unfolding s using stored_prefix [OF w] by (simp add: collectors_keys)
  show "raised (main_args rt e a) = None \<longrightarrow>
          sections (snapshot (main_args rt e a)) = section_names"
  proof
    assume "raised (main_args rt e a) = None"
    then have "failure (collectors rt e a) = None"
      by (simp add: main_args_raised default_section_all [OF assms] collect_raised)
    then have "stored (collectors rt e a) = filter fst (collectors rt e a)"
      by (rule stored_complete)
    also have "\<dots> = collectors rt e a"
      using w by (intro filter_True) (simp add: list_all_iff)
    finally show "sections (snapshot (main_args rt e a)) = section_names"
      unfolding s by (simp add: collectors_keys)
  qed
qed

theorem all_flag_six_sections_witness:
  "opt_all (default_args\<lparr>opt_all := True\<rparr>)
   \<and> raised (main_args demo_runtime demo_env (default_args\<lparr>opt_all := True\<rparr>)) = None
   \<and> sections (snapshot (main_args demo_runtime demo_env (default_args\<lparr>opt_all := True\<rparr>)))
       = [''system'', ''cpu'', ''memory'', ''disk'', ''network'', ''processes'']"
proof -
  have r: "raised (main_args demo_runtime demo_env (default_args\<lparr>opt_all := True\<rparr>)) = None"
    by code_simp
  from all_flag_six_sections [of "default_args\<lparr>opt_all := True\<rparr>" demo_runtime demo_env] r
  show ?thesis by (simp add: section_names_def)
qed

text \<open>
  Claim C7 as stated fails for a run that a collector ends with an exception. On a host whose
  name does not resolve, \<^verbatim>\<open>socket.gethostbyname\<close> raises in the network collector: \<^verbatim>\<open>--all\<close>
  ends there, with the four sections collected before. On a host that lists the process of
  another user, with \<^verbatim>\<open>None\<close> for its memory percentage, the sort of the process collector
  raises TypeError: \<^verbatim>\<open>--all\<close> ends with five sections.
\<close>

theorem all_flag_run_ends_early:
  "raised (main_args demo_runtime demo_unresolved (default_args\<lparr>opt_all := True\<rparr>)) = Some OSError
   \<and> sections (snapshot (main_args demo_runtime demo_unresolved (default_args\<lparr>opt_all := True\<rparr>)))
       = [''system'', ''cpu'', ''memory'', ''disk'']
   \<and> raised (main_args demo_runtime demo_multiuser (default_args\<lparr>opt_all := True\<rparr>)) = Some TypeError
   \<and> sections (snapshot (main_args demo_runtime demo_multiuser (default_args\<lparr>opt_all := True\<rparr>)))
       = [''system'', ''cpu'', ''memory'', ''disk'', ''network'']"
  by code_simp








text \<open>
  Which of two different \<^verbatim>\<open>--sort-by\<close> values comes last decides the sort key, and so whether
  the sort meets a \<^verbatim>\<open>None\<close>: on a host with a process whose CPU percentage alone is \<^verbatim>\<open>None\<close>,
  one order of the same options ends in TypeError and the other completes.
\<close>

lemma sort_by_order_matters:
  "map_option raised
     (main demo_runtime
        (demo_env\<lparr> process_iter := Inr [Info demo_init, Info (demo_shell\<lparr> cpu_percent := None \<rparr>)] \<rparr>)
        [Processes, SortBy ''memory'', SortBy ''cpu'']) = Some (Some TypeError)
   \<and> map_option raised
       (main demo_runtime
          (demo_env\<lparr> process_iter := Inr [Info demo_init, Info (demo_shell\<lparr> cpu_percent := None \<rparr>)] \<rparr>)
          [Processes, SortBy ''cpu'', SortBy ''memory'']) = Some None"
  by code_simp



lemma map_of_dict_set: "map_of (dict_set r k v) = (map_of r)(k \<mapsto> v)"
  by (induction r k v rule: dict_set.induct) auto

text \<open>
  Claim C2, as the code has it. For every run that ends without an exception and whose
  \<^verbatim>\<open>--output\<close> is a non-empty file name, exactly one file is written, under that name, and
  its content is \<^verbatim>\<open>json.dumps\<close> of the final \<^verbatim>\<open>results\<close> with an indent of 4 spaces, whether
  \<^verbatim>\<open>--json\<close> is set or not; the only line printed is the confirmation. Without \<^verbatim>\<open>--json\<close>
  the object written holds the \<^verbatim>\<open>timestamp\<close> entry as well, with \<^verbatim>\<open>--json\<close> it does not.
\<close>

theorem output_file_is_json:
  assumes "opt_output a = Some f" and "f \<noteq> []" and "raised (main_args rt e a) = None"
  shows "files (main_args rt e a) = [(f, json_dumps rt 4 (PDict (snapshot (main_args rt e a))))]
       \<and> stdout (main_args rt e a) = [''Information saved to '' @ f]
       \<and> map_of (snapshot (main_args rt e a)) ''timestamp''
           = (if opt_json a then None else Some (PStr (now e)))"
proof -
  obtain results x where c: "collect rt e (default_section a) = (results, x)"
    by (cases "collect rt e (default_section a)")
  from assms(3) c have x: "x = None"
    by (simp add: main_args_raised)
  have "''timestamp'' \<notin> set (map fst results)"
    using timestamp_not_collected [of rt e "default_section a"] c by simp
  then have t: "map_of results ''timestamp'' = None"
    by (simp add: map_of_eq_None_iff)
  show ?thesis
    using c x t assms(1,2)
    by (simp add: main_args_def Let_def default_section_keeps to_file_or_file
          save_to_file_def map_of_dict_set)
qed

theorem output_file_is_json_witness:
  "opt_output (default_args\<lparr>opt_output := Some ''out.json'', opt_json := True\<rparr>) = Some ''out.json''
   \<and> ''out.json'' \<noteq> []
   \<and> raised (main_args demo_runtime demo_env
               (default_args\<lparr>opt_output := Some ''out.json'', opt_json := True\<rparr>)) = None
   \<and> files (main_args demo_runtime demo_env
               (default_args\<lparr>opt_output := Some ''out.json'', opt_json := True\<rparr>))
       = [(''out.json'', json_dumps demo_runtime 4 (PDict [(''system'', get_system_info demo_env)]))]"
proof -
  let ?a = "default_args\<lparr>opt_output := Some ''out.json'', opt_json := True\<rparr>"
  have n: "\<not> any_section ?a" by (simp add: any_section_def default_args_def)
  note c = collect_default [OF n, of demo_runtime demo_env]
  have r: "raised (main_args demo_runtime demo_env ?a) = None"
    by (simp add: main_args_raised c)
  have s: "snapshot (main_args demo_runtime demo_env ?a) = [(''system'', get_system_info demo_env)]"
    by (simp add: main_args_snapshot c)
  have o: "opt_output ?a = Some ''out.json''" by simp
  have f: "''out.json'' \<noteq> []" by simp
  from output_file_is_json [OF o f r] o r s show ?thesis by simp
qed

text \<open>
  Claim C2 as stated fails: in text mode (no \<^verbatim>\<open>--json\<close>) with an output file, the file does
  not hold the text format. On the example host, \<^verbatim>\<open>-o out.txt\<close> writes the JSON dump of the
  system section and the timestamp, which is not the text the same invocation prints
  without \<^verbatim>\<open>-o\<close>.
\<close>

theorem text_mode_file_is_json:
  "files (main_args demo_runtime demo_env (default_args\<lparr>opt_output := Some ''out.txt''\<rparr>))
     = [(''out.txt'',
         json_dumps demo_runtime 4
           (PDict [(''system'', get_system_info demo_env),
                   (''timestamp'', PStr ''2024-01-01 00:00:00'')]))]
   \<and> json_dumps demo_runtime 4
         (PDict [(''system'', get_system_info demo_env),
                 (''timestamp'', PStr ''2024-01-01 00:00:00'')])
       \<noteq> printed_text (stdout (main_args demo_runtime demo_env default_args))"
proof -
  have n: "\<not> any_section (default_args\<lparr>opt_output := out\<rparr>)" for out
    by (simp add: any_section_def default_args_def)
  note c = collect_default [OF n, of demo_runtime demo_env]
  have d: "default_section (default_args\<lparr>opt_output := out\<rparr>)
             = default_args\<lparr>opt_output := out, opt_system := True\<rparr>" for out
    using n [of out] by (simp add: default_section_def)
  have j: "\<not> opt_json default_args" by (simp add: default_args_def)
  have nw: "now demo_env = ''2024-01-01 00:00:00''" by (simp add: demo_env_def)
  have 1: "files (main_args demo_runtime demo_env (default_args\<lparr>opt_output := Some ''out.txt''\<rparr>))
     = [(''out.txt'',
         json_dumps demo_runtime 4
           (PDict [(''system'', get_system_info demo_env),
                   (''timestamp'', PStr ''2024-01-01 00:00:00'')]))]"
    by (simp add: main_args_def Let_def c default_section_keeps j nw to_file_or_def save_to_file_def)
  have "default_args = default_args\<lparr>opt_output := None\<rparr>"
    by (simp add: default_args_def)
  then have "stdout (main_args demo_runtime demo_env default_args)
      = stdout (main_args demo_runtime demo_env (default_args\<lparr>opt_output := None\<rparr>))"
    by simp
  also have "\<dots> = (CHR 0x0A # ''System Information - '' @ now demo_env @ [CHR 0x0A])
       # fst (display_sections demo_runtime
               [(''system'', get_system_info demo_env), (''timestamp'', PStr (now demo_env))]
               (section_titles (default_section (default_args\<lparr>opt_output := None\<rparr>))))"
    by (simp add: main_args_def Let_def c default_section_keeps j to_file_or_def print_sections_def
          split: prod.split)
  finally have "hd (printed_text (stdout (main_args demo_runtime demo_env default_args))) = CHR 0x0A"
    by (simp add: printed_text_def)
  moreover have "hd (json_dumps demo_runtime 4
           (PDict [(''system'', get_system_info demo_env),
                   (''timestamp'', PStr ''2024-01-01 00:00:00'')])) = CHR ''{''"
    by (simp add: json_dumps_def)
  ultimately have "json_dumps demo_runtime 4
         (PDict [(''system'', get_system_info demo_env),
                 (''timestamp'', PStr ''2024-01-01 00:00:00'')])
       \<noteq> printed_text (stdout (main_args demo_runtime demo_env default_args))"
    by auto
  with 1 show ?thesis by simp
qed

section \<open>Properties of the text formatter\<close>

lemma set_set_update: "set (set_update keys new) = set keys \<union> set new"
  unfolding set_update_def by (induction new arbitrary: keys) auto

lemma distinct_set_update: "distinct keys \<Longrightarrow> distinct (set_update keys new)"
  unfolding set_update_def by (induction new arbitrary: keys) auto

lemma set_fold_update:
  "set (fold (\<lambda>kvs keys. set_update keys (map fst kvs)) dicts acc)
     = set acc \<union> (\<Union>d \<in> set dicts. fst ` set d)"
  by (induction dicts arbitrary: acc) (auto simp add: set_set_update)

lemma distinct_fold_update:
  "distinct acc \<Longrightarrow> distinct (fold (\<lambda>kvs keys. set_update keys (map fst kvs)) dicts acc)"
  by (induction dicts arbitrary: acc) (auto simp add: distinct_set_update)

lemma set_key_union: "set (key_union dicts) = (\<Union>d \<in> set dicts. fst ` set d)"
  by (simp add: key_union_def set_fold_update)

lemma distinct_key_union: "distinct (key_union dicts)"
  by (simp add: key_union_def distinct_fold_update)

lemma fold_max_Max:
  "fold (\<lambda>kv m. max (length (fst kv)) m) kvs m
     = Max (insert m ((\<lambda>kv. length (fst kv)) ` set kvs))"
proof (induction kvs arbitrary: m)
  case Nil
  show ?case by simp
next
  case (Cons a kvs)
  let ?S = "(\<lambda>kv. length (fst kv)) ` set kvs"
  have "Max (insert (max (length (fst a)) m) ?S) = Max (insert m (insert (length (fst a)) ?S))"
  proof (cases "?S = {}")
    case True
    then show ?thesis by (simp add: max.commute)
  next
    case False
    then show ?thesis by (simp add: max.assoc max.commute max.left_commute)
  qed
  with Cons show ?case by simp
qed

lemma max_key_length_Max:
  "kvs \<noteq> [] \<Longrightarrow> max_key_length kvs = Max ((\<lambda>kv. length (fst kv)) ` set kvs)"
  by (simp add: max_key_length_def fold_max_Max)

lemma all_dicts_nonempty:
  "all_dicts items = Some dicts \<Longrightarrow> dicts \<noteq> [] \<Longrightarrow> \<exists>first rest. items = PDict first # rest"
  by (cases items rule: all_dicts.cases) auto

lemma display_list_records:
  assumes "all_dicts items = Some dicts" and "dicts \<noteq> []"
  shows "display_list rt items =
     (if ''name'' \<in> set (key_union dicts)
      then (header_line rt (set_iter rt (remove1 ''name'' (key_union dicts)))
            # replicate (length (header_line rt (set_iter rt (remove1 ''name'' (key_union dicts))))) CHR ''-''
            # map (display_row rt (set_iter rt (remove1 ''name'' (key_union dicts)))) dicts, None)
      else (map (display_row rt (set_iter rt (key_union dicts))) dicts, None))"
proof -
  from all_dicts_nonempty [OF assms] obtain first rest where "items = PDict first # rest"
    by blast
  then have "display_list rt items =
     (case all_dicts items of
        None \<Rightarrow> ([], Some AttributeError)
      | Some dicts \<Rightarrow>
          (let keys = key_union dicts;
               has_name = (''name'' \<in> set keys);
               keys = (if has_name then remove1 ''name'' keys else keys);
               cols = set_iter rt keys;
               header = header_line rt cols
           in ((if has_name then [header, replicate (length header) CHR ''-''] else [])
               @ map (display_row rt cols) dicts, None)))"
    by (simp add: display_list_def del: all_dicts.simps)
  with assms(1) show ?thesis
    by (simp add: Let_def)
qed

lemma display_row_no_name:
  assumes "''name'' \<notin> fst ` set d"
  shows "display_row rt cols d = py_str rt (PDict d)"
proof -
  from assms have "map_of d ''name'' = None"
    by (simp add: map_of_eq_None_iff)
  then show ?thesis by (simp add: display_row_def)
qed

lemma display_row_columns:
  assumes "''name'' \<notin> set cols"
  shows "display_row rt cols d =
     (case map_of d ''name'' of
        Some n \<Rightarrow>
          py_str rt n @
          concat (map (\<lambda>key. '' | '' @ (case map_of d key of Some v \<Rightarrow> py_str rt v | None \<Rightarrow> ''N/A''))
                    cols)
      | None \<Rightarrow> py_str rt (PDict d))"
proof -
  have h: "map (\<lambda>key. if key \<noteq> ''name''
                     then '' | '' @ (case map_of d key of Some v \<Rightarrow> py_str rt v | None \<Rightarrow> ''N/A'')
                     else []) cols
        = map (\<lambda>key. '' | '' @ (case map_of d key of Some v \<Rightarrow> py_str rt v | None \<Rightarrow> ''N/A'')) cols"
    using assms by (intro map_cong) auto
  show ?thesis unfolding display_row_def h by (rule refl)
qed

lemma display_item_cases:
  "display_item rt w kv =
     (case snd kv of
        PDict sub \<Rightarrow> (fst kv @ '':'') # map (\<lambda>s. ''  '' @ fst s @ '': '' @ py_str rt (snd s)) sub
      | PList xs \<Rightarrow> (fst kv @ '':'') # map (\<lambda>x. ''  - '' @ py_str rt x) xs
      | v \<Rightarrow> [fst kv @ replicate (w - length (fst kv)) CHR '' '' @ '': '' @ py_str rt v])"
  by (cases "snd kv") (simp_all add: display_item_def ljust_def)

text \<open>
  Claim C6, as the code has it. Let a non-empty list hold only records, and let the iteration
  of a set enumerate its elements, each once. Then there is an order \<open>cols\<close> of the keys of the
  union of the keys of all records other than \<^verbatim>\<open>name\<close>, each once, such that the output is
  this. If some record has the key \<^verbatim>\<open>name\<close>: the header, which is \<^verbatim>\<open>Name\<close> followed by
  \<^verbatim>\<open> | \<close> and the capitalised key for each key of \<open>cols\<close>; a line of as many dashes as the
  header has characters; and one line per record, the value of \<^verbatim>\<open>name\<close> followed by \<^verbatim>\<open> | \<close>
  and the value, or \<^verbatim>\<open>N/A\<close>, for each key of \<open>cols\<close> (a record without \<^verbatim>\<open>name\<close> is printed as
  Python prints a dict). If no record has the key \<^verbatim>\<open>name\<close>: no header at all, and each record
  as Python prints a dict. A non-empty mapping is printed item by item: a value that is a
  dict as the line \<^verbatim>\<open>key:\<close> followed by one line per sub-item, indented by two spaces; a
  list as \<^verbatim>\<open>key:\<close> followed by one line \<^verbatim>\<open>  - item\<close> per item; any other value as the key,
  padded with spaces to the length of the longest key of the mapping, \<^verbatim>\<open>": "\<close> and the value.
\<close>

theorem display_info_tabular:
  "(all_dicts items = Some dicts \<and> dicts \<noteq> []
      \<and> (\<forall>ks. mset (set_iter rt ks) = mset ks) \<longrightarrow>
      (\<exists>cols. distinct cols
         \<and> set cols = (\<Union>d \<in> set dicts. fst ` set d) - {''name''}
         \<and> display_info rt (PList items) title =
             (title_lines title @
              (if ''name'' \<in> (\<Union>d \<in> set dicts. fst ` set d)
               then (''Name'' @ concat (map (\<lambda>key. '' | '' @ capitalize rt key) cols))
                    # replicate
                        (length (''Name'' @ concat (map (\<lambda>key. '' | '' @ capitalize rt key) cols)))
                        CHR ''-''
                    # map (\<lambda>d. case map_of d ''name'' of
                                  Some n \<Rightarrow>
                                    py_str rt n @
                                    concat (map (\<lambda>key. '' | '' @ (case map_of d key of
                                                                    Some v \<Rightarrow> py_str rt v
                                                                  | None \<Rightarrow> ''N/A'')) cols)
                                | None \<Rightarrow> py_str rt (PDict d)) dicts
               else map (\<lambda>d. py_str rt (PDict d)) dicts), None)))
   \<and> (kvs \<noteq> [] \<longrightarrow>
        display_info rt (PDict kvs) title =
          (title_lines title @
           concat (map (\<lambda>kv. case snd kv of
                          PDict sub \<Rightarrow>
                            (fst kv @ '':'') # map (\<lambda>s. ''  '' @ fst s @ '': '' @ py_str rt (snd s)) sub
                        | PList xs \<Rightarrow> (fst kv @ '':'') # map (\<lambda>x. ''  - '' @ py_str rt x) xs
                        | v \<Rightarrow>
                            [fst kv
                             @ replicate (Max ((\<lambda>kv. length (fst kv)) ` set kvs) - length (fst kv)) CHR '' ''
                             @ '': '' @ py_str rt v]) kvs), None))"
proof (intro conjI impI)
  assume "all_dicts items = Some dicts \<and> dicts \<noteq> []
      \<and> (\<forall>ks. mset (set_iter rt ks) = mset ks)"
  then have a: "all_dicts items = Some dicts" and n: "dicts \<noteq> []"
    and p: "\<And>ks. mset (set_iter rt ks) = mset ks" by simp_all
  let ?keys = "key_union dicts"
  let ?cols = "set_iter rt (remove1 ''name'' ?keys)"
  let ?row = "\<lambda>d. case map_of d ''name'' of
                    Some n \<Rightarrow>
                      py_str rt n @
                      concat (map (\<lambda>key. '' | '' @ (case map_of d key of
                                                      Some v \<Rightarrow> py_str rt v
                                                    | None \<Rightarrow> ''N/A'')) ?cols)
                  | None \<Rightarrow> py_str rt (PDict d)"
  have u: "set ?keys = (\<Union>d \<in> set dicts. fst ` set d)"
    by (rule set_key_union)
  have dk: "distinct (remove1 ''name'' ?keys)"
    using distinct_key_union [of dicts] by simp
  from p have m: "mset ?cols = mset (remove1 ''name'' ?keys)" .
  from m dk have dc: "distinct ?cols"
    by (metis mset_eq_imp_distinct_iff)
  from m have "set ?cols = set (remove1 ''name'' ?keys)"
    by (rule mset_eq_setD)
  then have sc: "set ?cols = (\<Union>d \<in> set dicts. fst ` set d) - {''name''}"
    using distinct_key_union [of dicts] u by simp
  then have nc: "''name'' \<notin> set ?cols" by simp
  have d: "display_info rt (PList items) title =
             (title_lines title @
              (if ''name'' \<in> (\<Union>d \<in> set dicts. fst ` set d)
               then (''Name'' @ concat (map (\<lambda>key. '' | '' @ capitalize rt key) ?cols))
                    # replicate
                        (length (''Name'' @ concat (map (\<lambda>key. '' | '' @ capitalize rt key) ?cols)))
                        CHR ''-''
                    # map ?row dicts
               else map (\<lambda>d. py_str rt (PDict d)) dicts), None)"
  proof (cases "''name'' \<in> set ?keys")
    case True
    have "map (display_row rt ?cols) dicts = map ?row dicts"
      by (simp add: display_row_columns [OF nc])
    with True show ?thesis
      unfolding u [symmetric]
      by (simp add: display_info_def display_list_records [OF a n] header_line_def)
  next
    case False
    then have "\<forall>d \<in> set dicts. ''name'' \<notin> fst ` set d"
      unfolding u by blast
    then have "map (display_row rt (set_iter rt ?keys)) dicts = map (\<lambda>d. py_str rt (PDict d)) dicts"
      by (simp add: display_row_no_name)
    with False show ?thesis
      unfolding u [symmetric]
      by (simp add: display_info_def display_list_records [OF a n])
  qed
  from dc sc d show "\<exists>cols. distinct cols
         \<and> set cols = (\<Union>d \<in> set dicts. fst ` set d) - {''name''}
         \<and> display_info rt (PList items) title =
             (title_lines title @
              (if ''name'' \<in> (\<Union>d \<in> set dicts. fst ` set d)
               then (''Name'' @ concat (map (\<lambda>key. '' | '' @ capitalize rt key) cols))
                    # replicate
                        (length (''Name'' @ concat (map (\<lambda>key. '' | '' @ capitalize rt key) cols)))
                        CHR ''-''
                    # map (\<lambda>d. case map_of d ''name'' of
                                  Some n \<Rightarrow>
                                    py_str rt n @
                                    concat (map (\<lambda>key. '' | '' @ (case map_of d key of
                                                                    Some v \<Rightarrow> py_str rt v
                                                                  | None \<Rightarrow> ''N/A'')) cols)
                                | None \<Rightarrow> py_str rt (PDict d)) dicts
               else map (\<lambda>d. py_str rt (PDict d)) dicts), None)"
    by blast
next
  assume k: "kvs \<noteq> []"
  show "display_info rt (PDict kvs) title =
          (title_lines title @
           concat (map (\<lambda>kv. case snd kv of
                          PDict sub \<Rightarrow>
                            (fst kv @ '':'') # map (\<lambda>s. ''  '' @ fst s @ '': '' @ py_str rt (snd s)) sub
                        | PList xs \<Rightarrow> (fst kv @ '':'') # map (\<lambda>x. ''  - '' @ py_str rt x) xs
                        | v \<Rightarrow>
                            [fst kv
                             @ replicate (Max ((\<lambda>kv. length (fst kv)) ` set kvs) - length (fst kv)) CHR '' ''
                             @ '': '' @ py_str rt v]) kvs), None)"
    using k unfolding max_key_length_Max [OF k, symmetric]
    by (simp add: display_info_def display_item_cases [symmetric])
qed

theorem display_info_tabular_witness:
  "all_dicts [PDict [(''pid'', PInt 1), (''name'', PStr ''init'')],
              PDict [(''name'', PStr ''sh''), (''user'', PStr ''bob'')]]
     = Some [[(''pid'', PInt 1), (''name'', PStr ''init'')],
             [(''name'', PStr ''sh''), (''user'', PStr ''bob'')]]
   \<and> (\<forall>ks. mset (set_iter demo_runtime ks) = mset ks)
   \<and> (\<exists>cols. distinct cols \<and> set cols = {''pid'', ''user''}
         \<and> hd (fst (display_info demo_runtime
                      (PList [PDict [(''pid'', PInt 1), (''name'', PStr ''init'')],
                              PDict [(''name'', PStr ''sh''), (''user'', PStr ''bob'')]]) None))
             = ''Name'' @ concat (map (\<lambda>key. '' | '' @ capitalize demo_runtime key) cols))
   \<and> display_info demo_runtime
        (PList [PDict [(''pid'', PInt 1), (''name'', PStr ''init'')],
                PDict [(''name'', PStr ''sh''), (''user'', PStr ''bob'')]]) None
       = ([''Name | Pid | User'', ''-----------------'', ''init | 1 | N/A'', ''sh | N/A | bob''], None)
   \<and> [(''host'', PStr ''box''), (''io'', PDict [(''sent'', PInt 3)])] \<noteq> []
   \<and> display_info demo_runtime
        (PDict [(''host'', PStr ''box''), (''io'', PDict [(''sent'', PInt 3)])]) None
       = ([''host: box'', ''io:'', ''  sent: 3''], None)"
proof -
  let ?items = "[PDict [(''pid'', PInt 1), (''name'', PStr ''init'')],
                 PDict [(''name'', PStr ''sh''), (''user'', PStr ''bob'')]]"
  let ?dicts = "[[(''pid'', PInt 1), (''name'', PStr ''init'')],
                 [(''name'', PStr ''sh''), (''user'', PStr ''bob'')]]"
  let ?kvs = "[(''host'', PStr ''box''), (''io'', PDict [(''sent'', PInt 3)])]"
  have a: "all_dicts ?items = Some ?dicts" by simp
  have p: "\<forall>ks. mset (set_iter demo_runtime ks) = mset ks"
    by (simp add: demo_runtime_def)
  have d: "?dicts \<noteq> []" and k: "?kvs \<noteq> []" by simp_all
  have u: "(\<Union>d \<in> set ?dicts. fst ` set d) = {''pid'', ''name'', ''user''}" by auto
  note t = display_info_tabular
             [where items = ?items and dicts = ?dicts and rt = demo_runtime and kvs = ?kvs
                and title = None]
  from t a d p obtain cols where c: "distinct cols"
      "set cols = (\<Union>d \<in> set ?dicts. fst ` set d) - {''name''}"
      "display_info demo_runtime (PList ?items) None =
         (title_lines None @
          (if ''name'' \<in> (\<Union>d \<in> set ?dicts. fst ` set d)
           then (''Name'' @ concat (map (\<lambda>key. '' | '' @ capitalize demo_runtime key) cols))
                # replicate
                    (length (''Name'' @ concat (map (\<lambda>key. '' | '' @ capitalize demo_runtime key) cols)))
                    CHR ''-''
                # map (\<lambda>d. case map_of d ''name'' of
                              Some n \<Rightarrow>
                                py_str demo_runtime n @
                                concat (map (\<lambda>key. '' | '' @ (case map_of d key of
                                                                Some v \<Rightarrow> py_str demo_runtime v
                                                              | None \<Rightarrow> ''N/A'')) cols)
                            | None \<Rightarrow> py_str demo_runtime (PDict d)) ?dicts
           else map (\<lambda>d. py_str demo_runtime (PDict d)) ?dicts), None)"
    by blast
  from c(2) have s: "set cols = {''pid'', ''user''}"
    unfolding u by auto
  from c(3) have h: "hd (fst (display_info demo_runtime (PList ?items) None))
      = ''Name'' @ concat (map (\<lambda>key. '' | '' @ capitalize demo_runtime key) cols)"
    unfolding u by (simp add: title_lines_def)
  have l: "display_info demo_runtime (PList ?items) None
       = ([''Name | Pid | User'', ''-----------------'', ''init | 1 | N/A'', ''sh | N/A | bob''], None)"
    by code_simp
  from t k have "display_info demo_runtime (PDict ?kvs) None =
          (title_lines None @
           concat (map (\<lambda>kv. case snd kv of
                          PDict sub \<Rightarrow>
                            (fst kv @ '':'')
                            # map (\<lambda>s. ''  '' @ fst s @ '': '' @ py_str demo_runtime (snd s)) sub
                        | PList xs \<Rightarrow> (fst kv @ '':'') # map (\<lambda>x. ''  - '' @ py_str demo_runtime x) xs
                        | v \<Rightarrow>
                            [fst kv
                             @ replicate (Max ((\<lambda>kv. length (fst kv)) ` set ?kvs) - length (fst kv)) CHR '' ''
                             @ '': '' @ py_str demo_runtime v]) ?kvs), None)"
    by blast
  moreover have "char_of (51::nat) = CHR ''3''" by code_simp
  ultimately have m: "display_info demo_runtime (PDict ?kvs) None
       = ([''host: box'', ''io:'', ''  sent: 3''], None)"
    by (simp add: title_lines_def py_str_def str_int_def str_nat.simps)
  from a p c(1) s h l k m show ?thesis by blast
qed

text \<open>
  Claim C6 as stated fails for a list of records none of which has the key \<^verbatim>\<open>name\<close> (the
  disk section is such a list): no header is printed. For the single record
  \<^verbatim>\<open>{"device": "sda"}\<close> the whole output is the one line \<^verbatim>\<open>{'device': 'sda'}\<close>.
\<close>

theorem display_info_no_header:
  "display_info demo_runtime (PList [PDict [(''device'', PStr ''sda'')]]) None
     = ([''{'' @ CHR 0x27 # ''device'' @ CHR 0x27 # '': '' @ CHR 0x27 # ''sda'' @ CHR 0x27 # ''}''], None)"
  by code_simp

section \<open>Properties of the JSON formatter\<close>

lemma hex_val_hex_digit: "n < 16 \<Longrightarrow> hex_val (hex_digit n) = Some n"
  by (simp add: hex_val_def hex_digit_def Let_def)

lemma hex4_hex2: "n < 256 \<Longrightarrow> hex4 (CHR ''0'' # CHR ''0'' # hex2 n) = Some n"
proof -
  assume n: "n < 256"
  have z: "hex_val CHR ''0'' = Some 0" by (simp add: hex_val_def)
  from n have d: "n div 16 mod 16 = n div 16" by simp
  have a: "hex_val (hex_digit (n div 16 mod 16)) = Some (n div 16 mod 16)"
    by (rule hex_val_hex_digit) simp
  have b: "hex_val (hex_digit (n mod 16)) = Some (n mod 16)"
    by (rule hex_val_hex_digit) simp
  have e: "n div 16 * 16 + n mod 16 = n" by simp
  have "hex4 [CHR ''0'', CHR ''0'', hex_digit (n div 16 mod 16), hex_digit (n mod 16)]
          = Some (n div 16 mod 16 * 16 + n mod 16)"
    unfolding hex4.simps z a b by simp
  then show ?thesis unfolding hex2_def d e by simp
qed


lemma scanstring_plain:
  assumes "c \<noteq> CHR 0x22" "c \<noteq> CHR 0x5C" "32 \<le> (of_char c :: nat)"
  shows "scanstring (c # t) = cons_char c (scanstring t)"
  using assms by simp

lemma scanstring_escape:
  assumes "unescape e = Some d" "e \<noteq> CHR ''u''"
  shows "scanstring (CHR 0x5C # e # t) = cons_char d (scanstring t)"
  using assms by simp

lemma scanstring_unicode:
  "scanstring (CHR 0x5C # CHR ''u'' # CHR ''0'' # CHR ''0'' # hex2 (of_char c) @ t)
     = cons_char c (scanstring t)"
proof -
  have lt: "(of_char c :: nat) < 256" by simp
  have "hex4 (take 4 (CHR ''0'' # CHR ''0'' # hex2 (of_char c) @ t)) = Some (of_char c)"
    using hex4_hex2 [OF lt] by (simp add: hex2_def)
  moreover have "drop 4 (CHR ''0'' # CHR ''0'' # hex2 (of_char c) @ t) = t"
    by (simp add: hex2_def)
  ultimately show ?thesis using lt by simp
qed


lemma scanstring_json_char:
  "scanstring (json_char c @ t) = cons_char c (scanstring t)"
  by (simp add: json_char_def scanstring_unicode scanstring_plain scanstring_escape unescape_def
        del: scanstring.simps)

lemma scanstring_body:
  "scanstring (concat (map json_char s) @ CHR 0x22 # rest) = Some (s, rest)"
  by (induction s) (simp_all add: scanstring_json_char cons_char_def del: scanstring.simps, simp)

lemma digit_char: "(n::nat) < 10 \<Longrightarrow> is_digit (char_of (48 + n))"
  by (simp add: is_digit_def)

lemma digit_char_value: "(n::nat) < 10 \<Longrightarrow> (of_char (char_of (48 + n) :: char) :: nat) - 48 = n"
  by simp

lemma str_nat_digits: "list_all is_digit (str_nat n)"
proof (induction n rule: str_nat.induct)
  case (1 n)
  show ?case
  proof (cases "n < 10")
    case True
    then show ?thesis by (simp add: str_nat.simps [of n] digit_char)
  next
    case False
    then have "list_all is_digit (str_nat (n div 10))" by (rule "1.IH")
    moreover have "is_digit (char_of (48 + n mod 10))" by (rule digit_char) simp
    ultimately show ?thesis using False by (simp add: str_nat.simps [of n])
  qed
qed

lemma str_nat_nonempty: "str_nat n \<noteq> []"
  by (subst str_nat.simps) simp

lemma nat_of_digits_snoc: "nat_of_digits (ds @ [c]) = 10 * nat_of_digits ds + (of_char c - 48)"
  by (simp add: nat_of_digits_def)

lemma nat_of_digits_str_nat: "nat_of_digits (str_nat n) = n"
proof (induction n rule: str_nat.induct)
  case (1 n)
  show ?case
  proof (cases "n < 10")
    case True
    then show ?thesis by (simp add: str_nat.simps [of n] nat_of_digits_def)
  next
    case False
    then have "nat_of_digits (str_nat (n div 10)) = n div 10" by (rule "1.IH")
    moreover have "(of_char (char_of (48 + n mod 10) :: char) :: nat) - 48 = n mod 10"
      by (rule digit_char_value) simp
    ultimately show ?thesis using False
      by (simp add: str_nat.simps [of n] nat_of_digits_snoc)
  qed
qed

lemma str_nat_head: "0 < n \<Longrightarrow> hd (str_nat n) \<noteq> CHR ''0''"
proof (induction n rule: str_nat.induct)
  case (1 n)
  show ?case
  proof (cases "n < 10")
    case True
    have v: "(of_char (char_of (48 + n) :: char) :: nat) = 48 + n" using True by simp
    have "char_of (48 + n) \<noteq> CHR ''0''"
    proof
      assume "char_of (48 + n) = CHR ''0''"
      then have "(of_char (char_of (48 + n) :: char) :: nat) = 48" by simp
      with v "1.prems" show False by simp
    qed
    with True show ?thesis by (simp add: str_nat.simps [of n])
  next
    case False
    then have "0 < n div 10" by simp
    with False have "hd (str_nat (n div 10)) \<noteq> CHR ''0''" by (rule "1.IH")
    with False show ?thesis by (simp add: str_nat.simps [of n] str_nat_nonempty)
  qed
qed

lemma scan_frac_delimited: "delimited rest \<Longrightarrow> scan_frac rest = ([], rest)"
  by (cases rest) (auto simp add: scan_frac_def delimited_def split: list.split)

lemma scan_exp_delimited: "delimited rest \<Longrightarrow> scan_exp rest = ([], rest)"
  by (cases rest) (auto simp add: scan_exp_def delimited_def)

lemma delimited_head:
  "delimited (c # cs) \<Longrightarrow> \<not> is_digit c \<and> c \<noteq> CHR ''-'' \<and> c \<noteq> CHR ''+'' \<and> c \<noteq> CHR ''.''
      \<and> c \<noteq> CHR ''e'' \<and> c \<noteq> CHR ''E''"
  by (auto simp add: delimited_def is_digit_def)

lemma takeWhile_delimited:
  assumes "delimited rest"
  shows "takeWhile is_digit (s @ rest) = takeWhile is_digit s"
    and "dropWhile is_digit (s @ rest) = dropWhile is_digit s @ rest"
proof -
  have r: "takeWhile is_digit rest = [] \<and> dropWhile is_digit rest = rest"
  proof (cases rest)
    case Nil
    then show ?thesis by simp
  next
    case (Cons c cs)
    with assms delimited_head [of c cs] show ?thesis by simp
  qed
  show "takeWhile is_digit (s @ rest) = takeWhile is_digit s"
    using r by (induction s) simp_all
  show "dropWhile is_digit (s @ rest) = dropWhile is_digit s @ rest"
    using r by (induction s) simp_all
qed

lemma scan_sign_delimited: "delimited rest \<Longrightarrow> scan_sign rest = ([], rest)"
proof (cases rest)
  case Nil
  then show ?thesis by (simp add: scan_sign_def)
next
  case (Cons c cs)
  assume "delimited rest"
  with Cons have "c \<noteq> CHR ''-''" using delimited_head [of c cs] by simp
  with Cons show ?thesis by (simp add: scan_sign_def)
qed

lemma scan_sign_append:
  assumes "delimited rest"
  shows "scan_sign (s @ rest) = (fst (scan_sign s), snd (scan_sign s) @ rest)"
proof (cases s)
  case Nil
  then show ?thesis using scan_sign_delimited [OF assms] by (simp add: scan_sign_def)
next
  case (Cons c cs)
  then show ?thesis by (simp add: scan_sign_def)
qed

lemma scan_integer_delimited: "delimited rest \<Longrightarrow> scan_integer rest = None"
proof (cases rest)
  case Nil
  then show ?thesis by (simp add: scan_integer_def)
next
  case (Cons c cs)
  assume "delimited rest"
  with Cons have d: "\<not> is_digit c" using delimited_head [of c cs] by simp
  have "is_digit CHR ''0''" by (simp add: is_digit_def)
  with d have "c \<noteq> CHR ''0''" by blast
  with Cons d show ?thesis by (simp add: scan_integer_def)
qed

lemma scan_integer_append:
  assumes "delimited rest"
  shows "scan_integer (s @ rest) = map_option (\<lambda>p. (fst p, snd p @ rest)) (scan_integer s)"
proof (cases s)
  case Nil
  then show ?thesis using scan_integer_delimited [OF assms] by (simp add: scan_integer_def)
next
  case (Cons c cs)
  then show ?thesis
    by (simp add: scan_integer_def takeWhile_delimited [OF assms])
qed

lemma scan_frac_append:
  assumes "delimited rest"
  shows "scan_frac (s @ rest) = (fst (scan_frac s), snd (scan_frac s) @ rest)"
proof (cases s)
  case Nil
  then show ?thesis using scan_frac_delimited [OF assms] by (simp add: scan_frac_def)
next
  case (Cons c cs)
  note s = Cons
  show ?thesis
  proof (cases cs)
    case Nil
    show ?thesis
    proof (cases rest)
      case Nil
      with s \<open>cs = []\<close> show ?thesis by (simp add: scan_frac_def)
    next
      case (Cons d ds)
      with assms have "\<not> is_digit d" using delimited_head [of d ds] by simp
      with s \<open>cs = []\<close> Cons show ?thesis by (simp add: scan_frac_def)
    qed
  next
    case (Cons d ds)
    with s show ?thesis by (simp add: scan_frac_def takeWhile_delimited [OF assms])
  qed
qed

lemma scan_exp_append:
  assumes "delimited rest"
  shows "scan_exp (s @ rest) = (fst (scan_exp s), snd (scan_exp s) @ rest)"
proof (cases s)
  case Nil
  then show ?thesis using scan_exp_delimited [OF assms] by (simp add: scan_exp_def)
next
  case (Cons e cs)
  note s = Cons
  show ?thesis
  proof (cases "e = CHR ''e'' \<or> e = CHR ''E''")
    case False
    with s show ?thesis by (simp add: scan_exp_def)
  next
    case True
    note e = True
    show ?thesis
    proof (cases cs)
      case Nil
      show ?thesis
      proof (cases rest)
        case Nil
        with s \<open>cs = []\<close> show ?thesis by (simp add: scan_exp_def)
      next
        case (Cons d ds)
        with assms have "\<not> is_digit d \<and> d \<noteq> CHR ''+'' \<and> d \<noteq> CHR ''-''"
          using delimited_head [of d ds] by simp
        with s e \<open>cs = []\<close> Cons show ?thesis by (simp add: scan_exp_def)
      qed
    next
      case (Cons d ds)
      note cs = Cons
      show ?thesis
      proof (cases "is_digit d")
        case True
        with s e cs show ?thesis by (simp add: scan_exp_def takeWhile_delimited [OF assms])
      next
        case False
        note nd = False
        show ?thesis
        proof (cases "d = CHR ''+'' \<or> d = CHR ''-''")
          case False
          with s e cs nd show ?thesis by (simp add: scan_exp_def)
        next
          case True
          note pm = True
          show ?thesis
          proof (cases ds)
            case Nil
            show ?thesis
            proof (cases rest)
              case Nil
              with s e cs nd pm \<open>ds = []\<close> show ?thesis by (simp add: scan_exp_def)
            next
              case (Cons g gs)
              with assms have "\<not> is_digit g" using delimited_head [of g gs] by simp
              with s e cs nd pm \<open>ds = []\<close> Cons show ?thesis by (simp add: scan_exp_def)
            qed
          next
            case (Cons g gs)
            with s e cs nd pm show ?thesis
              by (simp add: scan_exp_def takeWhile_delimited [OF assms])
          qed
        qed
      qed
    qed
  qed
qed

lemma match_number_append:
  assumes "delimited rest"
  shows "match_number (s @ rest)
           = map_option (\<lambda>m. (fst m, fst (snd m), fst (snd (snd m)), snd (snd (snd m)) @ rest))
               (match_number s)"
  by (simp add: match_number_def scan_sign_append [OF assms] scan_integer_append [OF assms]
        scan_frac_append [OF assms] scan_exp_append [OF assms]
        split: prod.split option.split)

lemma str_nat_0: "str_nat 0 = ''0''"
  by code_simp

lemma scan_integer_str_nat: "scan_integer (str_nat n) = Some (str_nat n, [])"
proof -
  obtain d ds where s: "str_nat n = d # ds"
    using str_nat_nonempty [of n] by (cases "str_nat n") auto
  from str_nat_digits [of n] s have d: "is_digit d" and ds: "list_all is_digit ds"
    by simp_all
  from ds have t: "takeWhile is_digit ds = ds" "dropWhile is_digit ds = []"
    by (simp_all add: list_all_iff)
  show ?thesis
  proof (cases "n = 0")
    case True
    then show ?thesis by (simp add: str_nat_0 scan_integer_def)
  next
    case False
    then have "hd (str_nat n) \<noteq> CHR ''0''" using str_nat_head [of n] by simp
    with s have "d \<noteq> CHR ''0''" by simp
    with s d t show ?thesis by (simp add: scan_integer_def)
  qed
qed

lemma str_nat_no_dash: "hd (str_nat n) \<noteq> CHR ''-''"
proof -
  obtain d ds where s: "str_nat n = d # ds"
    using str_nat_nonempty [of n] by (cases "str_nat n") auto
  from str_nat_digits [of n] s have "is_digit d" by simp
  moreover have "\<not> is_digit CHR ''-''" by (simp add: is_digit_def)
  ultimately have "d \<noteq> CHR ''-''" by blast
  with s show ?thesis by simp
qed

lemma scan_sign_str_nat: "scan_sign (str_nat n) = ([], str_nat n)"
proof -
  obtain d ds where s: "str_nat n = d # ds"
    using str_nat_nonempty [of n] by (cases "str_nat n") auto
  with str_nat_no_dash [of n] show ?thesis by (simp add: scan_sign_def)
qed

lemma scan_frac_Nil: "scan_frac [] = ([], [])"
  by (simp add: scan_frac_def)

lemma scan_exp_Nil: "scan_exp [] = ([], [])"
  by (simp add: scan_exp_def)

lemma match_number_str_int: "match_number (str_int i) = Some (str_int i, [], [], [])"
proof (cases "i < 0")
  case True
  then show ?thesis
    by (simp add: str_int_def match_number_def scan_sign_def scan_integer_str_nat
          scan_frac_Nil scan_exp_Nil)
next
  case False
  then show ?thesis
    by (simp add: str_int_def match_number_def scan_sign_str_nat scan_integer_str_nat
          scan_frac_Nil scan_exp_Nil)
qed

lemma int_of_text_str_int: "int_of_text (str_int i) = i"
proof (cases "i < 0")
  case True
  then show ?thesis by (simp add: str_int_def int_of_text_def nat_of_digits_str_nat)
next
  case False
  obtain d ds where s: "str_nat (nat i) = d # ds"
    using str_nat_nonempty [of "nat i"] by (cases "str_nat (nat i)") auto
  with str_nat_no_dash [of "nat i"] have "d \<noteq> CHR ''-''" by simp
  moreover have "nat_of_digits (d # ds) = nat i"
    using nat_of_digits_str_nat [of "nat i"] s by simp
  ultimately show ?thesis using False s by (simp add: str_int_def int_of_text_def)
qed

lemma scan_number_int:
  assumes "delimited rest"
  shows "scan_number rt (str_int i @ rest) = Some (PInt i, rest)"
  by (simp add: scan_number_def match_number_append [OF assms] match_number_str_int
        int_of_text_str_int)

lemma scan_number_float:
  assumes "float_ok rt x" and "delimited rest"
  shows "scan_number rt (float_repr rt x @ rest) = Some (PFloat x, rest)"
  using assms(1)
  by (auto simp add: scan_number_def match_number_append [OF assms(2)] float_ok_def
        split: option.splits)

lemma number_head:
  assumes "match_number s = Some m"
  shows "\<exists>c cs. s = c # cs \<and> (c = CHR ''-'' \<or> is_digit c)"
proof (cases s)
  case Nil
  with assms show ?thesis by (simp add: match_number_def scan_sign_def scan_integer_def)
next
  case (Cons c cs)
  show ?thesis
  proof (cases "c = CHR ''-'' \<or> is_digit c")
    case True
    with Cons show ?thesis by simp
  next
    case False
    moreover have "is_digit CHR ''0''" by (simp add: is_digit_def)
    ultimately have "c \<noteq> CHR ''0''" by blast
    with False Cons assms show ?thesis
      by (simp add: match_number_def scan_sign_def scan_integer_def)
  qed
qed

lemma number_char:
  assumes "c = CHR ''-'' \<or> is_digit c"
  shows "c \<noteq> CHR 0x22 \<and> c \<noteq> CHR ''{'' \<and> c \<noteq> CHR ''['' \<and> c \<noteq> CHR ''n'' \<and> c \<noteq> CHR ''t''
         \<and> c \<noteq> CHR ''f'' \<and> c \<noteq> CHR '']'' \<and> c \<noteq> CHR ''}'' \<and> \<not> is_ws c"
  using assms by (auto simp add: is_digit_def is_ws_def)

lemma scan_once_number:
  assumes "match_number tok = Some m"
  shows "scan_once rt (Suc n) (tok @ rest) = scan_number rt (tok @ rest)"
proof -
  from number_head [OF assms] obtain c cs where t: "tok = c # cs" and c: "c = CHR ''-'' \<or> is_digit c"
    by blast
  from number_char [OF c] t show ?thesis by simp
qed

lemma skip_ws_indent: "skip_ws (newline_indent ind l @ s) = skip_ws s"
proof -
  have "\<forall>c \<in> set (newline_indent ind l). is_ws c"
    by (auto simp add: newline_indent_def is_ws_def)
  then show ?thesis by (simp add: skip_ws_def dropWhile_append2)
qed

lemma skip_ws_head: "\<not> is_ws c \<Longrightarrow> skip_ws (c # s) = c # s"
  by (simp add: skip_ws_def)

lemma delimited_indent: "delimited (newline_indent ind l @ s)"
  by (simp add: delimited_def newline_indent_def)

lemma delimited_comma: "delimited (CHR '','' # s)"
  by (simp add: delimited_def)

lemma not_ws_chars:
  "\<not> is_ws CHR '']''" "\<not> is_ws CHR ''}''" "\<not> is_ws CHR '',''" "\<not> is_ws CHR '':''"
  "\<not> is_ws CHR 0x22" "\<not> is_ws CHR ''['' " "\<not> is_ws CHR ''{''"
  by (simp_all add: is_ws_def)

lemma parse_array_items:
  fixes enc :: "pyval \<Rightarrow> string"
  assumes elem: "\<And>x n rest. x \<in> set xs \<Longrightarrow> delimited rest \<Longrightarrow> length (enc x) < n
                   \<Longrightarrow> scan_once rt n (enc x @ rest) = Some (x, rest)"
      and head: "\<And>x. x \<in> set xs \<Longrightarrow> \<exists>c cs. enc x = c # cs \<and> \<not> is_ws c"
      and "xs \<noteq> []"
      and "length (join (CHR '','' # newline_indent ind l1) (map enc xs)) + 1 < n"
  shows "parse_array rt n
           (join (CHR '','' # newline_indent ind l1) (map enc xs)
            @ newline_indent ind l0 @ CHR '']'' # rest) = Some (xs, rest)"
  using assms(3,1,2,4)
proof (induction xs arbitrary: n rule: list_nonempty_induct)
  case (single x)
  from single.prems(3) obtain m where n: "n = Suc m" and m: "length (enc x) < m"
    by (cases n) auto
  have "scan_once rt m (enc x @ newline_indent ind l0 @ CHR '']'' # rest)
          = Some (x, newline_indent ind l0 @ CHR '']'' # rest)"
    by (rule single.prems(1)) (simp_all add: delimited_indent m)
  then show ?case
    by (simp add: n skip_ws_indent skip_ws_head not_ws_chars)
next
  case (cons x xs)
  let ?sep = "CHR '','' # newline_indent ind l1"
  let ?tail = "join ?sep (map enc xs) @ newline_indent ind l0 @ CHR '']'' # rest"
  from cons.hyps obtain y ys where xs: "xs = y # ys" by (cases xs) auto
  have j: "join ?sep (enc x # map enc xs) = enc x @ ?sep @ join ?sep (map enc xs)"
    by (simp add: xs)
  from cons.prems(3) obtain m where n: "n = Suc m"
    and m: "length (enc x) + length ?sep + length (join ?sep (map enc xs)) < m"
    using j by (cases n) auto
  have x: "scan_once rt m (enc x @ CHR '','' # newline_indent ind l1 @ ?tail)
          = Some (x, CHR '','' # newline_indent ind l1 @ ?tail)"
    by (rule cons.prems(1)) (use m in \<open>simp_all add: delimited_comma\<close>)
  from cons.prems(2) [of y] obtain c cs where y: "enc y = c # cs" and c: "\<not> is_ws c"
    by (auto simp add: xs)
  have "\<exists>t. ?tail = c # t"
    by (cases ys) (simp_all add: xs y)
  then obtain t where t: "?tail = c # t" by blast
  have s: "skip_ws (newline_indent ind l1 @ ?tail) = ?tail"
    unfolding skip_ws_indent unfolding t by (rule skip_ws_head [OF c])
  have "parse_array rt m ?tail = Some (xs, rest)"
  proof (rule cons.IH)
    show "length (join ?sep (map enc xs)) + 1 < m" using m by simp
  qed (use cons.prems(1,2) in auto)
  with x s show ?case
    by (simp add: n j skip_ws_head not_ws_chars)
qed

lemma dict_set_new: "k \<notin> fst ` set d \<Longrightarrow> dict_set d k v = d @ [(k, v)]"
  by (induction d k v rule: dict_set.induct) auto

lemma fold_dict_set_distinct:
  "distinct (map fst acc @ map fst kvs) \<Longrightarrow>
     fold (\<lambda>kv d. dict_set d (fst kv) (snd kv)) kvs acc = acc @ kvs"
proof (induction kvs arbitrary: acc)
  case Nil
  show ?case by simp
next
  case (Cons kv kvs)
  from Cons.prems have "fst kv \<notin> fst ` set acc" by auto
  then have "dict_set acc (fst kv) (snd kv) = acc @ [kv]"
    by (simp add: dict_set_new)
  moreover have "fold (\<lambda>kv d. dict_set d (fst kv) (snd kv)) kvs (acc @ [kv]) = (acc @ [kv]) @ kvs"
    by (rule Cons.IH) (use Cons.prems in auto)
  ultimately show ?case by simp
qed

lemma dict_of_pairs_distinct: "distinct (map fst kvs) \<Longrightarrow> dict_of_pairs kvs = kvs"
  using fold_dict_set_distinct [of "[]" kvs] by (simp add: dict_of_pairs_def)

lemma skip_ws_space: "skip_ws (CHR '' '' # s) = skip_ws s"
  by (simp add: skip_ws_def is_ws_def)

lemma parse_object_step:
  assumes "scan_once rt m (encv @ after) = Some (v, after)" and "encv = c # cs" and "\<not> is_ws c"
  shows "parse_object rt (Suc m) (json_string k @ '': '' @ encv @ after) =
     (case skip_ws after of
        [] \<Rightarrow> None
      | d # ds \<Rightarrow>
          if d = CHR ''}'' then Some ([(k, v)], ds)
          else if d = CHR '','' then
            map_option (\<lambda>p. ((k, v) # fst p, snd p)) (parse_object rt m (skip_ws ds))
          else None)"
proof -
  have key: "scanstring (concat (map json_char k) @ CHR 0x22 # '': '' @ encv @ after)
             = Some (k, '': '' @ encv @ after)"
    by (rule scanstring_body)
  have w: "skip_ws (encv @ after) = encv @ after"
    unfolding assms(2) using skip_ws_head [OF assms(3)] by simp
  from key assms(1) w show ?thesis
    by (simp add: json_string_def skip_ws_head not_ws_chars skip_ws_space
          del: scanstring.simps)
qed

lemma parse_object_items:
  fixes enc :: "pyval \<Rightarrow> string"
  assumes elem: "\<And>kv n rest. kv \<in> set kvs \<Longrightarrow> delimited rest \<Longrightarrow> length (enc (snd kv)) < n
                   \<Longrightarrow> scan_once rt n (enc (snd kv) @ rest) = Some (snd kv, rest)"
      and head: "\<And>kv. kv \<in> set kvs \<Longrightarrow> \<exists>c cs. enc (snd kv) = c # cs \<and> \<not> is_ws c"
      and "kvs \<noteq> []"
      and "length (join (CHR '','' # newline_indent ind l1)
                    (map (\<lambda>kv. json_string (fst kv) @ '': '' @ enc (snd kv)) kvs)) + 1 < n"
  shows "parse_object rt n
           (join (CHR '','' # newline_indent ind l1)
              (map (\<lambda>kv. json_string (fst kv) @ '': '' @ enc (snd kv)) kvs)
            @ newline_indent ind l0 @ CHR ''}'' # rest) = Some (kvs, rest)"
  using assms(3,1,2,4)
proof (induction kvs arbitrary: n rule: list_nonempty_induct)
  case (single kv)
  let ?after = "newline_indent ind l0 @ CHR ''}'' # rest"
  from single.prems(3) obtain m where n: "n = Suc m" and m: "length (enc (snd kv)) < m"
    by (cases n) auto
  from single.prems(2) [of kv] obtain c cs where h: "enc (snd kv) = c # cs" and c: "\<not> is_ws c"
    by auto
  have v: "scan_once rt m (enc (snd kv) @ ?after) = Some (snd kv, ?after)"
    by (rule single.prems(1)) (simp_all add: delimited_indent m)
  have "parse_object rt (Suc m) (json_string (fst kv) @ '': '' @ enc (snd kv) @ ?after)
          = Some ([kv], rest)"
    unfolding parse_object_step [OF v h c]
    by (simp add: skip_ws_indent skip_ws_head not_ws_chars)
  then show ?case by (simp add: n del: parse_object.simps)
next
  case (cons kv kvs)
  let ?sep = "CHR '','' # newline_indent ind l1"
  let ?pair = "\<lambda>kv. json_string (fst kv) @ '': '' @ enc (snd kv)"
  let ?tail = "join ?sep (map ?pair kvs) @ newline_indent ind l0 @ CHR ''}'' # rest"
  let ?after = "CHR '','' # newline_indent ind l1 @ ?tail"
  from cons.hyps obtain y ys where kvs: "kvs = y # ys" by (cases kvs) auto
  have j: "join ?sep (?pair kv # map ?pair kvs) = ?pair kv @ ?sep @ join ?sep (map ?pair kvs)"
    by (simp add: kvs)
  from cons.prems(3) obtain m where n: "n = Suc m"
    and m: "length (?pair kv) + length ?sep + length (join ?sep (map ?pair kvs)) < m"
    using j by (cases n) auto
  from cons.prems(2) [of kv] obtain c cs where h: "enc (snd kv) = c # cs" and c: "\<not> is_ws c"
    by auto
  have v: "scan_once rt m (enc (snd kv) @ ?after) = Some (snd kv, ?after)"
    by (rule cons.prems(1)) (use m in \<open>simp_all add: delimited_comma\<close>)
  have "\<exists>t. ?tail = CHR 0x22 # t"
    by (cases ys) (simp_all add: kvs json_string_def)
  then obtain t where t: "?tail = CHR 0x22 # t" by blast
  have s: "skip_ws (newline_indent ind l1 @ ?tail) = ?tail"
    unfolding skip_ws_indent unfolding t by (rule skip_ws_head) (simp add: not_ws_chars)
  have i: "parse_object rt m ?tail = Some (kvs, rest)"
  proof (rule cons.IH)
    show "length (join ?sep (map ?pair kvs)) + 1 < m" using m by simp
  qed (use cons.prems(1,2) in auto)
  have "parse_object rt (Suc m) (json_string (fst kv) @ '': '' @ enc (snd kv) @ ?after)
          = Some (kv # kvs, rest)"
    unfolding parse_object_step [OF v h c]
    using s i by (simp add: skip_ws_head not_ws_chars)
  then show ?case using j by (simp add: n del: parse_object.simps)
qed

lemma float_ok_match: "float_ok rt x \<Longrightarrow> \<exists>m. match_number (float_repr rt x) = Some m"
  by (auto simp add: float_ok_def split: option.splits)

lemma number_token_head:
  assumes "match_number tok = Some m"
  shows "\<exists>c cs. tok = c # cs \<and> \<not> is_ws c \<and> c \<noteq> CHR '']''"
proof -
  from number_head [OF assms] obtain c cs where "tok = c # cs" and "c = CHR ''-'' \<or> is_digit c"
    by blast
  with number_char [of c] show ?thesis by simp
qed

lemma encode_head:
  assumes "json_ok rt v"
  shows "\<exists>c cs. json_encode rt ind lvl v = c # cs \<and> \<not> is_ws c \<and> c \<noteq> CHR '']''"
proof (cases v)
  case PNone
  then show ?thesis by (simp add: is_ws_def)
next
  case (PBool b)
  then show ?thesis by (simp add: is_ws_def)
next
  case (PInt i)
  then show ?thesis using number_token_head [OF match_number_str_int [of i]] by simp
next
  case (PFloat x)
  with assms float_ok_match [of rt x] obtain m where "match_number (float_repr rt x) = Some m"
    by auto
  from number_token_head [OF this] PFloat show ?thesis by simp
next
  case (PStr s)
  then show ?thesis by (simp add: json_string_def not_ws_chars)
next
  case (PList xs)
  then show ?thesis by (simp add: not_ws_chars)
next
  case (PDict kvs)
  then show ?thesis by (simp add: not_ws_chars)
qed

lemma scan_once_literals:
  "scan_once rt (Suc m) (''null'' @ rest) = Some (PNone, rest)"
  "scan_once rt (Suc m) (''true'' @ rest) = Some (PBool True, rest)"
  "scan_once rt (Suc m) (''false'' @ rest) = Some (PBool False, rest)"
  by (simp_all add: literal_def)

lemma scan_once_string:
  "scan_once rt (Suc m) (json_string s @ rest) = Some (PStr s, rest)"
proof -
  have "scanstring (concat (map json_char s) @ CHR 0x22 # rest) = Some (s, rest)"
    by (rule scanstring_body)
  then show ?thesis by (simp add: json_string_def del: scanstring.simps)
qed

lemma scan_once_empty:
  "scan_once rt (Suc m) (''[]'' @ rest) = Some (PList [], rest)"
  "scan_once rt (Suc m) (''{}'' @ rest) = Some (PDict [], rest)"
  by (simp_all add: skip_ws_head not_ws_chars)

lemma scan_once_array:
  assumes "parse_array rt m (c # t) = Some (xs, rest)" and "\<not> is_ws c" and "c \<noteq> CHR '']''"
  shows "scan_once rt (Suc m) (CHR ''['' # newline_indent ind l @ c # t) = Some (PList xs, rest)"
proof -
  have "skip_ws (newline_indent ind l @ c # t) = c # t"
    unfolding skip_ws_indent by (rule skip_ws_head [OF assms(2)])
  with assms(1,3) show ?thesis by simp
qed

lemma scan_once_object:
  assumes "parse_object rt m (CHR 0x22 # t) = Some (kvs, rest)"
  shows "scan_once rt (Suc m) (CHR ''{'' # newline_indent ind l @ CHR 0x22 # t)
           = Some (PDict (dict_of_pairs kvs), rest)"
proof -
  have "skip_ws (newline_indent ind l @ CHR 0x22 # t) = CHR 0x22 # t"
    unfolding skip_ws_indent by (rule skip_ws_head) (simp add: not_ws_chars)
  with assms show ?thesis by simp
qed

lemma scan_once_encode:
  "json_ok rt v \<Longrightarrow> delimited rest \<Longrightarrow> length (json_encode rt ind lvl v) < n
     \<Longrightarrow> scan_once rt n (json_encode rt ind lvl v @ rest) = Some (v, rest)"
proof (induction v arbitrary: lvl n rest)
  case PNone
  then obtain m where "n = Suc m" by (cases n) auto
  then show ?case using scan_once_literals(1) [of rt m rest] by simp
next
  case (PBool b)
  then obtain m where "n = Suc m" by (cases n) auto
  then show ?case
    using scan_once_literals(2) [of rt m rest] scan_once_literals(3) [of rt m rest]
    by (cases b) simp_all
next
  case (PInt i)
  then obtain m where n: "n = Suc m" by (cases n) auto
  show ?case
    unfolding n json_encode.simps scan_once_number [OF match_number_str_int]
    by (rule scan_number_int [OF PInt.prems(2)])
next
  case (PFloat x)
  then obtain m where n: "n = Suc m" by (cases n) auto
  from PFloat.prems(1) have ok: "float_ok rt x" by simp
  from float_ok_match [OF ok] obtain t where t: "match_number (float_repr rt x) = Some t"
    by blast
  show ?case
    unfolding n json_encode.simps scan_once_number [OF t]
    by (rule scan_number_float [OF ok PFloat.prems(2)])
next
  case (PStr s)
  then obtain m where n: "n = Suc m" by (cases n) auto
  show ?case unfolding n json_encode.simps by (rule scan_once_string)
next
  case (PList xs)
  then obtain m where n: "n = Suc m" by (cases n) auto
  show ?case
  proof (cases "xs = []")
    case True
    then show ?thesis using scan_once_empty(1) [of rt m rest] by (simp add: n)
  next
    case False
    let ?enc = "json_encode rt ind (Suc lvl)"
    let ?items = "join (CHR '','' # newline_indent ind (Suc lvl)) (map ?enc xs)"
    let ?tail = "?items @ newline_indent ind lvl @ CHR '']'' # rest"
    have ok: "json_ok rt x" if "x \<in> set xs" for x
      using PList.prems(1) that by (simp add: list_all_iff)
    have len: "length ?items + 1 < m"
      using PList.prems(3) False by (simp add: n newline_indent_def)
    have items: "parse_array rt m ?tail = Some (xs, rest)"
    proof (rule parse_array_items [OF _ _ False len])
      fix x k r
      assume x: "x \<in> set xs" and r: "delimited r" and k: "length (?enc x) < k"
      show "scan_once rt k (?enc x @ r) = Some (x, r)"
        by (rule PList.IH [OF x ok [OF x] r k])
    next
      fix x
      assume x: "x \<in> set xs"
      from encode_head [OF ok [OF x], of ind "Suc lvl"]
      show "\<exists>c cs. ?enc x = c # cs \<and> \<not> is_ws c" by blast
    qed
    from False obtain y ys where xs: "xs = y # ys" by (cases xs) auto
    then have "y \<in> set xs" by simp
    from encode_head [OF ok [OF this], of ind "Suc lvl"] obtain c cs
      where y: "?enc y = c # cs" and c: "\<not> is_ws c" and nb: "c \<noteq> CHR '']''" by blast
    have "\<exists>t. ?tail = c # t"
      by (cases ys) (simp_all add: xs y)
    then obtain t where t: "?tail = c # t"
      by blast
    from items have "scan_once rt (Suc m) (CHR ''['' # newline_indent ind (Suc lvl) @ c # t)
                       = Some (PList xs, rest)"
      unfolding t by (rule scan_once_array [OF _ c nb])
    then show ?thesis
      unfolding n using False t by simp
  qed
next
  case (PDict kvs)
  then obtain m where n: "n = Suc m" by (cases n) auto
  show ?case
  proof (cases "kvs = []")
    case True
    then show ?thesis using scan_once_empty(2) [of rt m rest] by (simp add: n)
  next
    case False
    let ?enc = "json_encode rt ind (Suc lvl)"
    let ?pair = "\<lambda>kv. json_string (fst kv) @ '': '' @ ?enc (snd kv)"
    let ?items = "join (CHR '','' # newline_indent ind (Suc lvl)) (map ?pair kvs)"
    let ?tail = "?items @ newline_indent ind lvl @ CHR ''}'' # rest"
    have ok: "json_ok rt (snd kv)" if "kv \<in> set kvs" for kv
      using PDict.prems(1) that by (simp add: list_all_iff)
    have d: "distinct (map fst kvs)"
      using PDict.prems(1) by simp
    have len: "length ?items + 1 < m"
      using PDict.prems(3) False by (simp add: n newline_indent_def)
    have items: "parse_object rt m ?tail = Some (kvs, rest)"
    proof (rule parse_object_items [OF _ _ False len])
      fix kv k r
      assume kv: "kv \<in> set kvs" and r: "delimited r" and k: "length (?enc (snd kv)) < k"
      have s: "snd kv \<in> Basic_BNFs.snds kv"
        by (cases kv) simp
      show "scan_once rt k (?enc (snd kv) @ r) = Some (snd kv, r)"
        by (rule PDict.IH [OF kv s ok [OF kv] r k])
    next
      fix kv
      assume kv: "kv \<in> set kvs"
      from encode_head [OF ok [OF kv], of ind "Suc lvl"]
      show "\<exists>c cs. ?enc (snd kv) = c # cs \<and> \<not> is_ws c" by blast
    qed
    from False obtain y ys where kvs: "kvs = y # ys" by (cases kvs) auto
    have "\<exists>t. ?tail = CHR 0x22 # t"
      by (cases ys) (simp_all add: kvs json_string_def)
    then obtain t where t: "?tail = CHR 0x22 # t"
      by blast
    from items have "scan_once rt (Suc m) (CHR ''{'' # newline_indent ind (Suc lvl) @ CHR 0x22 # t)
                       = Some (PDict (dict_of_pairs kvs), rest)"
      unfolding t by (rule scan_once_object)
    then show ?thesis
      unfolding n using False t by (simp add: dict_of_pairs_distinct [OF d])
  qed
qed

lemma json_round_trip:
  assumes "json_ok rt v"
  shows "json_loads rt (json_dumps rt indent v) = Some v"
proof -
  let ?s = "json_dumps rt indent v"
  from encode_head [OF assms, of indent 0] obtain c cs where h: "?s = c # cs" and c: "\<not> is_ws c"
    by (auto simp add: json_dumps_def)
  have w: "skip_ws ?s = ?s"
    unfolding h by (rule skip_ws_head [OF c])
  have "scan_once rt (Suc (length ?s)) (json_encode rt indent 0 v @ []) = Some (v, [])"
    by (rule scan_once_encode [OF assms]) (simp_all add: delimited_def json_dumps_def)
  then have "scan_once rt (Suc (length ?s)) ?s = Some (v, [])"
    by (simp add: json_dumps_def)
  then show ?thesis
    unfolding json_loads_def w by (simp add: skip_ws_def)
qed

lemma distinct_dict_set:
  "distinct (map fst d) \<Longrightarrow> distinct (map fst (dict_set d k v))"
  by (simp add: map_fst_dict_set)

lemma distinct_interfaces:
  "distinct (map fst acc) \<Longrightarrow> distinct (map fst (interfaces_loop rt xs acc))"
  by (induction rt xs acc rule: interfaces_loop.induct) (simp_all add: distinct_dict_set)

lemma values_interfaces:
  "\<forall>kd \<in> set acc. P (snd kd) \<Longrightarrow> (\<And>s. P (interface_dict rt s))
     \<Longrightarrow> \<forall>kd \<in> set (interfaces_loop rt xs acc). P (snd kd)"
proof (induction rt xs acc rule: interfaces_loop.induct)
  case (1 rt interfaces)
  then show ?case by simp
next
  case (2 rt interface stats rest interfaces)
  have "\<forall>kd \<in> set (dict_set interfaces interface (interface_dict rt stats)). P (snd kd)"
    by (rule values_dict_set) (use 2 in auto)
  then show ?case using 2 by simp
qed

lemma json_ok_system: "json_ok rt (get_system_info e)"
  by (simp add: get_system_info_def)

lemma json_ok_memory: "json_ok rt (get_memory_info rt m)"
  by (simp add: get_memory_info_def)

lemma json_ok_cpu:
  "floats_ok rt e \<Longrightarrow> psutil_cpu e = Inr c \<Longrightarrow> json_ok rt (get_cpu_info rt c)"
  by (simp add: get_cpu_info_def floats_ok_def list_all_iff opt_int_def split: option.splits)

lemma json_ok_interface: "json_ok rt (interface_dict rt s)"
  by (simp add: interface_dict_def)

lemma json_ok_network: "json_ok rt (get_network_info rt n)"
proof -
  have "distinct (map fst (interfaces_loop rt (net_io_counters n) []))"
    by (rule distinct_interfaces) simp
  moreover have "\<forall>kd \<in> set (interfaces_loop rt (net_io_counters n) []). json_ok rt (snd kd)"
    by (rule values_interfaces) (simp_all add: json_ok_interface)
  ultimately show ?thesis
    by (simp add: get_network_info_def list_all_iff)
qed

lemma json_ok_disk: "json_ok rt (PList (map disk_dict xs))"
  by (simp add: list_all_iff disk_dict_def)

lemma json_ok_opt_str: "json_ok rt (opt_str s)"
  by (cases s) (simp_all add: opt_str_def)

lemma json_ok_opt_float: "json_ok rt (opt_float x) = opt_float_ok rt x"
  by (cases x) (simp_all add: opt_float_def opt_float_ok_def)

lemma json_ok_processes:
  assumes "floats_ok rt e" and "process_iter e = Inr qs"
    and "get_process_info qs sort_by limit = Inr ps"
  shows "json_ok rt (PList (map process_dict ps))"
proof -
  from get_process_info_Inr [OF assms(3)] obtain s
    where s: "sort_reverse (sort_metric sort_by) (infos qs) = Inr s" and r: "ps = slice_to limit s"
    by blast
  have "mset ps \<subseteq># mset (infos qs)"
    unfolding r using mset_slice_to [of limit s] by (simp add: mset_sort_reverse [OF s])
  then have "set_mset (mset ps) \<subseteq> set_mset (mset (infos qs))"
    by (rule set_mset_mono)
  then have "set ps \<subseteq> set (infos qs)" by simp
  with assms(1,2)
  have "\<forall>p \<in> set ps. opt_float_ok rt (memory_percent p) \<and> opt_float_ok rt (cpu_percent p)"
    by (auto simp add: floats_ok_def list_all_iff)
  then show ?thesis
    by (simp add: list_all_iff process_dict_def json_ok_opt_str json_ok_opt_float)
qed

lemma collect_json_ok:
  assumes "floats_ok rt e"
  shows "json_ok rt (PDict (fst (collect rt e a)))"
proof -
  have v: "\<forall>kd \<in> set (fst (collect rt e a)). json_ok rt (snd kd)"
  proof (rule collect_values)
    show "json_ok rt (get_system_info e)" by (rule json_ok_system)
    show "json_ok rt (get_cpu_info rt c)" if "psutil_cpu e = Inr c" for c
      using assms that by (rule json_ok_cpu)
    show "json_ok rt (get_memory_info rt m)" for m by (rule json_ok_memory)
    show "json_ok rt (PList (map disk_dict xs))" for xs by (rule json_ok_disk)
    show "json_ok rt (get_network_info rt n)" for n by (rule json_ok_network)
    show "json_ok rt (PList (map process_dict ps))"
      if "process_iter e = Inr qs" and "get_process_info qs (opt_sort_by a) (opt_limit a) = Inr ps"
      for qs ps
      using assms that by (rule json_ok_processes)
  qed
  from v collect_keys_distinct [of rt e a] show ?thesis by (simp add: list_all_iff)
qed

lemma snapshot_json_ok:
  assumes "floats_ok rt e"
  shows "json_ok rt (PDict (snapshot (main_args rt e a)))"
proof -
  let ?results = "fst (collect rt e (default_section a))"
  from collect_json_ok [OF assms, of "default_section a"]
  have d: "distinct (map fst ?results)" and v: "\<forall>kd \<in> set ?results. json_ok rt (snd kd)"
    by (simp_all add: list_all_iff)
  have "distinct (map fst (dict_set ?results ''timestamp'' (PStr (now e))))"
    using d by (rule distinct_dict_set)
  moreover have "\<forall>kd \<in> set (dict_set ?results ''timestamp'' (PStr (now e))). json_ok rt (snd kd)"
    by (rule values_dict_set [OF v]) simp
  ultimately show ?thesis
    using d v by (simp add: main_args_snapshot list_all_iff)
qed

lemma main_args_output:
  assumes "raised (main_args rt e a) = None"
  shows "files (main_args rt e a)
           = (case opt_output a of
                None \<Rightarrow> []
              | Some f \<Rightarrow> if f = [] then []
                          else [(f, json_dumps rt 4 (PDict (snapshot (main_args rt e a))))])"
    and "opt_json a \<Longrightarrow> files (main_args rt e a) = [] \<Longrightarrow>
           stdout (main_args rt e a) = [json_dumps rt 4 (PDict (snapshot (main_args rt e a)))]"
proof -
  obtain results x where c: "collect rt e (default_section a) = (results, x)"
    by (cases "collect rt e (default_section a)")
  from assms c have x: "x = None"
    by (simp add: main_args_raised)
  show "files (main_args rt e a)
           = (case opt_output a of
                None \<Rightarrow> []
              | Some f \<Rightarrow> if f = [] then []
                          else [(f, json_dumps rt 4 (PDict (snapshot (main_args rt e a))))])"
    using c x
    by (simp add: main_args_def Let_def default_section_keeps to_file_or_def save_to_file_def
          print_sections_fields split: option.split)
  then have o: "files (main_args rt e a) = [] \<Longrightarrow> opt_output a = None \<or> opt_output a = Some []"
    by (simp split: option.splits if_splits)
  show "stdout (main_args rt e a) = [json_dumps rt 4 (PDict (snapshot (main_args rt e a)))]"
    if "opt_json a" and "files (main_args rt e a) = []"
  proof -
    from o [OF that(2)] show ?thesis
    proof
      assume "opt_output a = None"
      with c x that(1) show ?thesis
        by (simp add: main_args_def Let_def default_section_keeps to_file_or_def)
    next
      assume "opt_output a = Some []"
      with c x that(1) show ?thesis
        by (simp add: main_args_def Let_def default_section_keeps to_file_or_def)
    qed
  qed
qed

text \<open>
  Claim C5. Let the floating-point parameters of the runtime round-trip on the floats the host
  reports, and let the run end without an exception. Then every file the run writes holds a
  text that \<^verbatim>\<open>json.loads\<close> parses to exactly the final \<^verbatim>\<open>results\<close>, the snapshot passed to
  \<^verbatim>\<open>json.dump\<close>; with \<^verbatim>\<open>--json\<close> and no file, the one string printed parses to it as well. More
  generally \<^verbatim>\<open>json.loads(json.dumps(v, indent=4))\<close> is \<open>v\<close> for every value \<open>v\<close> whose dicts have
  no key twice and whose floats round-trip.
\<close>

theorem emitted_json_round_trips:
  assumes "floats_ok rt e" and "raised (main_args rt e a) = None"
  shows "list_all (\<lambda>written. json_loads rt (snd written) = Some (PDict (snapshot (main_args rt e a))))
           (files (main_args rt e a))
       \<and> (opt_json a \<and> files (main_args rt e a) = [] \<longrightarrow>
            (\<exists>text. stdout (main_args rt e a) = [text]
                  \<and> json_loads rt text = Some (PDict (snapshot (main_args rt e a)))))
       \<and> (json_ok rt v \<longrightarrow> json_loads rt (json_dumps rt 4 v) = Some v)"
proof -
  let ?snapshot = "PDict (snapshot (main_args rt e a))"
  have p: "json_loads rt (json_dumps rt 4 ?snapshot) = Some ?snapshot"
    by (rule json_round_trip [OF snapshot_json_ok [OF assms(1)]])
  have 1: "list_all (\<lambda>written. json_loads rt (snd written) = Some ?snapshot)
           (files (main_args rt e a))"
    unfolding main_args_output(1) [OF assms(2)] using p by (simp split: option.split)
  have 2: "opt_json a \<and> files (main_args rt e a) = [] \<longrightarrow>
            (\<exists>text. stdout (main_args rt e a) = [text] \<and> json_loads rt text = Some ?snapshot)"
    using main_args_output(2) [OF assms(2)] p by simp
  have 3: "json_ok rt v \<longrightarrow> json_loads rt (json_dumps rt 4 v) = Some v"
    using json_round_trip [of rt v 4] by simp
  from 1 2 3 show ?thesis by blast
qed

theorem emitted_json_round_trips_witness:
  "floats_ok demo_runtime demo_env
   \<and> raised (main_args demo_runtime demo_env (default_args\<lparr>opt_processes := True, opt_json := True\<rparr>)) = None
   \<and> opt_json (default_args\<lparr>opt_processes := True, opt_json := True\<rparr>)
   \<and> files (main_args demo_runtime demo_env (default_args\<lparr>opt_processes := True, opt_json := True\<rparr>)) = []
   \<and> (\<exists>text. stdout (main_args demo_runtime demo_env
                         (default_args\<lparr>opt_processes := True, opt_json := True\<rparr>)) = [text]
           \<and> json_loads demo_runtime text
               = Some (PDict [(''processes'',
                               PList [process_dict demo_shell, process_dict demo_init])]))
   \<and> json_ok demo_runtime
         (PDict [(''a'', PList [PInt (- 12), PFloat (3 / 2), PNone, PStr ''x'']), (''b'', PDict [])])
   \<and> json_loads demo_runtime
         (json_dumps demo_runtime 4
            (PDict [(''a'', PList [PInt (- 12), PFloat (3 / 2), PNone, PStr ''x'']), (''b'', PDict [])]))
       = Some (PDict [(''a'', PList [PInt (- 12), PFloat (3 / 2), PNone, PStr ''x'']), (''b'', PDict [])])"
proof -
  let ?a = "default_args\<lparr>opt_processes := True, opt_json := True\<rparr>"
  let ?v = "PDict [(''a'', PList [PInt (- 12), PFloat (3 / 2), PNone, PStr ''x'']), (''b'', PDict [])]"
  have f: "floats_ok demo_runtime demo_env"
    by code_simp
  have r: "raised (main_args demo_runtime demo_env ?a) = None"
    by code_simp
  have s: "snapshot (main_args demo_runtime demo_env ?a)
             = [(''processes'', PList [process_dict demo_shell, process_dict demo_init])]"
    by code_simp
  have j: "opt_json ?a" by simp
  have n: "files (main_args demo_runtime demo_env ?a) = []"
    by code_simp
  have v: "json_ok demo_runtime ?v"
    by code_simp
  from emitted_json_round_trips [OF f r, of ?v] j n s f r v show ?thesis by simp
qed

end
